theory Spec2Isabelle
  imports Main "HOL-Library.Word"
begin

section \<open>The sharded Parquet reader library (parquet\_reader\_lib.cpp)\<close>

text \<open>
  The development embeds the reader library: the batched column cursor
  (\<open>Int64Cursor\<close>), the two list assemblers, the three row-group streamers
  (\<open>FileStreamerTopCols\<close>, \<open>FileStreamerTradeCols\<close>, \<open>FileStreamerDeltaCols\<close>), the
  three batch readers and the file discovery (\<open>candidate_files_strict\<close>).

  The Parquet library itself (\<open>parquet::ColumnReader\<close>, \<open>ParquetFileReader\<close>) is
  not part of the program. A column reader is represented by the sequence of
  results its \<open>ReadBatch\<close> calls will give, a file by its schema and row groups,
  and the file system by a function from paths to what opening them gives.
  Every C++ exception is a value of type \<open>error\<close>; a function that can throw
  returns \<open>error + 'a\<close>.
\<close>

subsection \<open>Exceptions\<close>

datatype error =
    RuntimeError string    \<comment> \<open>\<open>std::runtime_error\<close> thrown by the library itself\<close>
  | ParquetError string    \<comment> \<open>an exception thrown by the Parquet library\<close>

text \<open>Both derive from \<open>std::exception\<close>; \<open>what\<close> is the message.\<close>

fun what :: "error \<Rightarrow> string" where
  "what (RuntimeError m) = m"
| "what (ParquetError m) = m"

text \<open>Sequencing of computations that can throw.\<close>

definition bnd :: "error + 'a \<Rightarrow> ('a \<Rightarrow> error + 'b) \<Rightarrow> error + 'b" where
  "bnd m f = (case m of Inl e \<Rightarrow> Inl e | Inr x \<Rightarrow> f x)"

subsection \<open>The physical column reader\<close>

text \<open>
  One call of \<open>ReadBatch\<close> either throws or fills the level buffers with some
  levels (a definition and a repetition level each) and the value buffer with
  some values. \<open>Batch ls vs\<close> is a call that returned \<open>length ls\<close> levels and set
  \<open>values_read\<close> to \<open>length vs\<close>. A reader is the list of the results still to
  come; once the list is empty every further call returns zero levels.
\<close>

datatype read_result =
    Batch "(int \<times> int) list" "int list"
  | ReadThrows string

type_synonym column_reader = "read_result list"

fun ReadBatch :: "column_reader \<Rightarrow> error + ((int \<times> int) list \<times> int list \<times> column_reader)" where
  "ReadBatch [] = Inr ([], [], [])"
| "ReadBatch (Batch ls vs # rest) = Inr (ls, vs, rest)"
| "ReadBatch (ReadThrows m # rest) = Inl (ParquetError m)"

subsection \<open>Entry and Int64Cursor\<close>

record Entry =
  e_def :: int
  e_rep :: int
  e_has_value :: bool
  e_value :: int
  e_valid :: bool

text \<open>\<open>Entry{}\<close>: the default member initialisers.\<close>

definition Entry0 :: Entry where
  "Entry0 = \<lparr>e_def = 0, e_rep = 0, e_has_value = False, e_value = 0, e_valid = False\<rparr>"

text \<open>
  The cursor. \<open>levbuf\<close> holds the first \<open>levels_in_buf\<close> slots of \<open>defbuf\<close> and
  \<open>repbuf\<close> (as pairs), \<open>valbuf\<close> the first \<open>values_in_buf\<close> slots of the value
  buffer, so \<open>levels_in_buf = length levbuf\<close> and \<open>values_in_buf = length valbuf\<close>.
\<close>

record Int64Cursor =
  rdr :: column_reader
  max_def :: int
  max_rep :: int
  eof :: bool
  has_pending :: bool
  pending :: Entry
  levbuf :: "(int \<times> int) list"
  valbuf :: "int list"
  level_idx :: nat
  value_idx :: nat

definition BATCH :: nat where
  "BATCH = 65536"

definition refill :: "Int64Cursor \<Rightarrow> error + (bool \<times> Int64Cursor)" where
  "refill c =
     (if eof c then Inr (False, c)
      else case ReadBatch (rdr c) of
             Inl e \<Rightarrow> Inl e
           | Inr (ls, vs, rest) \<Rightarrow>
               if length ls = 0
               then Inr (False, c\<lparr>rdr := rest, levbuf := [], eof := True\<rparr>)
               else Inr (True, c\<lparr>rdr := rest, levbuf := ls, valbuf := vs,
                                  level_idx := 0, value_idx := 0\<rparr>))"

definition ensure_pending :: "Int64Cursor \<Rightarrow> error + (bool \<times> Int64Cursor)" where
  "ensure_pending c =
     (if eof c \<and> \<not> has_pending c then Inr (False, c)
      else if has_pending c then Inr (True, c)
      else case (if level_idx c \<ge> length (levbuf c) then refill c else Inr (True, c)) of
             Inl e \<Rightarrow> Inl e
           | Inr (False, c1) \<Rightarrow> Inr (False, c1)
           | Inr (True, c1) \<Rightarrow>
               (let d = (if max_def c1 \<noteq> 0 then fst (levbuf c1 ! level_idx c1) else 0);
                    rp = (if max_rep c1 \<noteq> 0 then snd (levbuf c1 ! level_idx c1) else 0)
                in if d = max_def c1
                   then if value_idx c1 \<ge> length (valbuf c1)
                        then Inl (RuntimeError ''value_idx overflow'')
                        else Inr (True,
                               c1\<lparr>value_idx := value_idx c1 + 1,
                                  level_idx := level_idx c1 + 1,
                                  pending := \<lparr>e_def = d, e_rep = rp, e_has_value = True,
                                              e_value = valbuf c1 ! value_idx c1,
                                              e_valid = True\<rparr>,
                                  has_pending := True\<rparr>)
                   else Inr (True,
                          c1\<lparr>level_idx := level_idx c1 + 1,
                             pending := \<lparr>e_def = d, e_rep = rp, e_has_value = False,
                                         e_value = 0, e_valid = True\<rparr>,
                             has_pending := True\<rparr>)))"

definition take_entry :: "Int64Cursor \<Rightarrow> error + (Entry \<times> Int64Cursor)" where
  "take_entry c =
     (case ensure_pending c of
        Inl e \<Rightarrow> Inl e
      | Inr (False, c1) \<Rightarrow> Inr (Entry0, c1)
      | Inr (True, c1) \<Rightarrow> Inr (pending c1, c1\<lparr>has_pending := False\<rparr>))"

definition peek :: "Int64Cursor \<Rightarrow> error + (Entry option \<times> Int64Cursor)" where
  "peek c =
     (case ensure_pending c of
        Inl e \<Rightarrow> Inl e
      | Inr (False, c1) \<Rightarrow> Inr (None, c1)
      | Inr (True, c1) \<Rightarrow> Inr (Some (pending c1), c1))"

text \<open>
  The number of entries a cursor can still deliver at most: the pending one,
  the levels left in the buffer and the levels of the batches to come.
\<close>

fun levels_of :: "read_result \<Rightarrow> nat" where
  "levels_of (Batch ls vs) = length ls"
| "levels_of (ReadThrows m) = 0"

definition remaining :: "Int64Cursor \<Rightarrow> nat" where
  "remaining c =
     (if has_pending c then 1 else 0) +
     (if eof c then 0
      else (length (levbuf c) - level_idx c) + sum_list (map levels_of (rdr c)))"

lemma ensure_pending_remaining:
  assumes "ensure_pending c = Inr (b, c1)"
  shows "remaining c1 \<le> remaining c \<and> has_pending c1 = b"
proof (cases "has_pending c")
  case True
  with assms show ?thesis by (auto simp: ensure_pending_def)
next
  case np: False
  show ?thesis
  proof (cases "eof c")
    case True
    with np assms show ?thesis by (auto simp: ensure_pending_def)
  next
    case ne: False
    show ?thesis
    proof (cases "level_idx c \<ge> length (levbuf c)")
      case False
      with np ne assms show ?thesis
        by (auto simp: ensure_pending_def remaining_def Let_def split: if_splits)
    next
      case True
      show ?thesis
      proof (cases "rdr c")
        case Nil
        with True np ne assms show ?thesis
          by (auto simp: ensure_pending_def refill_def remaining_def)
      next
        case (Cons x rest)
        show ?thesis
        proof (cases x)
          case (ReadThrows m)
          with Cons True np ne assms show ?thesis
            by (auto simp: ensure_pending_def refill_def)
        next
          case (Batch ls vs)
          with Cons True np ne assms show ?thesis
            by (cases "ls = []")
               (auto simp: ensure_pending_def refill_def remaining_def Let_def
                     split: if_splits)
        qed
      qed
    qed
  qed
qed


lemma ensure_pending_False:
  assumes "ensure_pending c = Inr (False, c1)"
  shows "eof c1 \<and> \<not> has_pending c1"
  using assms
  by (auto simp: ensure_pending_def refill_def Let_def
           split: if_splits sum.splits prod.splits bool.splits list.splits read_result.splits)

lemma ensure_pending_has_pending:
  "has_pending c \<Longrightarrow> ensure_pending c = Inr (True, c)"
  by (simp add: ensure_pending_def)

lemma take_entry_remaining:
  assumes "take_entry c = Inr (e, c1)"
  shows "\<not> has_pending c1 \<and> (remaining c1 < remaining c \<or> eof c1)"
proof (cases "ensure_pending c")
  case (Inl x)
  with assms show ?thesis by (simp add: take_entry_def)
next
  case (Inr p)
  obtain b c2 where p: "p = (b, c2)" by (cases p)
  show ?thesis
  proof (cases b)
    case False
    with Inr p assms ensure_pending_False [of c c2] show ?thesis
      by (auto simp: take_entry_def)
  next
    case True
    with Inr p assms ensure_pending_remaining [of c True c2] show ?thesis
      by (auto simp: take_entry_def remaining_def split: if_splits)
  qed
qed

lemma peek_Some_remaining:
  assumes "peek c = Inr (Some n, c1)"
  shows "has_pending c1 \<and> remaining c1 \<le> remaining c \<and> \<not> (eof c \<and> \<not> has_pending c)"
proof -
  from assms have ep: "ensure_pending c = Inr (True, c1)"
    by (auto simp: peek_def split: sum.splits prod.splits bool.splits)
  with ensure_pending_remaining [of c True c1] have "has_pending c1" "remaining c1 \<le> remaining c"
    by auto
  moreover from ep have "\<not> (eof c \<and> \<not> has_pending c)"
    by (auto simp: ensure_pending_def split: if_splits)
  ultimately show ?thesis by simp
qed

lemma take_then_peek_remaining:
  assumes "take_entry c = Inr (e, c1)" and "peek c1 = Inr (Some n, c2)"
  shows "remaining c2 < remaining c"
  using take_entry_remaining [OF assms(1)] peek_Some_remaining [OF assms(2)]
  by auto

subsection \<open>The list assemblers\<close>

type_synonym u32 = "32 word"

text \<open>
  An output vector passed by pointer: \<open>None\<close> is \<open>nullptr\<close>, and
  \<open>if (out) out->push_back(v)\<close> is \<open>push_back_opt\<close>.
\<close>

definition push_back_opt :: "int list option \<Rightarrow> int \<Rightarrow> int list option" where
  "push_back_opt out v = map_option (\<lambda>xs. xs @ [v]) out"

text \<open>The \<open>while (true)\<close> loop of \<open>append_list_from_leaf_for_row\<close>.\<close>

function leaf_loop ::
  "Int64Cursor \<Rightarrow> int list option \<Rightarrow> u32 \<Rightarrow> error + (u32 \<times> Int64Cursor \<times> int list option)" where
  "leaf_loop leaf out_vals count =
     (case take_entry leaf of
        Inl x \<Rightarrow> Inl x
      | Inr (e, leaf1) \<Rightarrow>
          (case peek leaf1 of
             Inl x \<Rightarrow> Inl x
           | Inr (n, leaf2) \<Rightarrow>
               (case n of
                  None \<Rightarrow> Inr (count + 1, leaf2, push_back_opt out_vals (e_value e))
                | Some ne \<Rightarrow>
                    if e_rep ne = 0
                    then Inr (count + 1, leaf2, push_back_opt out_vals (e_value e))
                    else leaf_loop leaf2 (push_back_opt out_vals (e_value e)) (count + 1))))"
  by pat_completeness auto
termination
  by (relation "measure (\<lambda>(leaf, out_vals, count). remaining leaf)")
     (auto dest: take_then_peek_remaining)

declare leaf_loop.simps [simp del]

definition append_list_from_leaf_for_row ::
  "Int64Cursor \<Rightarrow> int list option \<Rightarrow> error + (u32 \<times> Int64Cursor \<times> int list option)" where
  "append_list_from_leaf_for_row leaf out_vals =
     (case peek leaf of
        Inl x \<Rightarrow> Inl x
      | Inr (None, leaf1) \<Rightarrow> Inr (0, leaf1, out_vals)
      | Inr (Some p, leaf1) \<Rightarrow>
          if \<not> e_has_value p \<and> e_rep p = 0
          then (case take_entry leaf1 of
                  Inl x \<Rightarrow> Inl x
                | Inr (e, leaf2) \<Rightarrow> Inr (0, leaf2, out_vals))
          else leaf_loop leaf1 out_vals 0)"

text \<open>The \<open>while (true)\<close> loop of \<open>append_list_pairs_for_row_typed\<close>.\<close>

function pairs_loop ::
  "Int64Cursor \<Rightarrow> Int64Cursor \<Rightarrow> int list option \<Rightarrow> int list option \<Rightarrow> u32 \<Rightarrow>
   error + (u32 \<times> Int64Cursor \<times> Int64Cursor \<times> int list option \<times> int list option)" where
  "pairs_loop px qty out_px out_qty count =
     (case take_entry px of
        Inl x \<Rightarrow> Inl x
      | Inr (epx, px1) \<Rightarrow>
          (case take_entry qty of
             Inl x \<Rightarrow> Inl x
           | Inr (eqy, qty1) \<Rightarrow>
               (case peek px1 of
                  Inl x \<Rightarrow> Inl x
                | Inr (npx, px2) \<Rightarrow>
                    (case peek qty1 of
                       Inl x \<Rightarrow> Inl x
                     | Inr (nqy, qty2) \<Rightarrow>
                         (case npx of
                            None \<Rightarrow> Inr (count + 1, px2, qty2,
                                          push_back_opt out_px (e_value epx),
                                          push_back_opt out_qty (e_value eqy))
                          | Some a \<Rightarrow>
                              (case nqy of
                                 None \<Rightarrow> Inr (count + 1, px2, qty2,
                                               push_back_opt out_px (e_value epx),
                                               push_back_opt out_qty (e_value eqy))
                               | Some b \<Rightarrow>
                                   if e_rep a = 0
                                   then Inr (count + 1, px2, qty2,
                                             push_back_opt out_px (e_value epx),
                                             push_back_opt out_qty (e_value eqy))
                                   else if e_rep a \<noteq> e_rep b
                                   then Inr (count + 1, px2, qty2,
                                             push_back_opt out_px (e_value epx),
                                             push_back_opt out_qty (e_value eqy))
                                   else pairs_loop px2 qty2
                                          (push_back_opt out_px (e_value epx))
                                          (push_back_opt out_qty (e_value eqy))
                                          (count + 1)))))))"
  by pat_completeness auto
termination
  by (relation "measure (\<lambda>(px, qty, out_px, out_qty, count). remaining px)")
     (auto dest: take_then_peek_remaining)

declare pairs_loop.simps [simp del]

definition append_list_pairs_for_row_typed ::
  "Int64Cursor \<Rightarrow> Int64Cursor \<Rightarrow> int list option \<Rightarrow> int list option \<Rightarrow>
   error + (u32 \<times> Int64Cursor \<times> Int64Cursor \<times> int list option \<times> int list option)" where
  "append_list_pairs_for_row_typed px qty out_px out_qty =
     (case peek px of
        Inl x \<Rightarrow> Inl x
      | Inr (p_peek, px1) \<Rightarrow>
          (case peek qty of
             Inl x \<Rightarrow> Inl x
           | Inr (q_peek, qty1) \<Rightarrow>
               (case p_peek of
                  None \<Rightarrow> Inr (0, px1, qty1, out_px, out_qty)
                | Some p \<Rightarrow>
                    (case q_peek of
                       None \<Rightarrow> Inr (0, px1, qty1, out_px, out_qty)
                     | Some q \<Rightarrow>
                         if (\<not> e_has_value p \<and> e_rep p = 0) \<and> (\<not> e_has_value q \<and> e_rep q = 0)
                         then (case take_entry px1 of
                                 Inl x \<Rightarrow> Inl x
                               | Inr (e1, px2) \<Rightarrow>
                                   (case take_entry qty1 of
                                      Inl x \<Rightarrow> Inl x
                                    | Inr (e2, qty2) \<Rightarrow> Inr (0, px2, qty2, out_px, out_qty)))
                         else pairs_loop px1 qty1 out_px out_qty 0))))"

subsection \<open>The entries a cursor delivers\<close>

text \<open>
  \<open>entries c\<close> is the sequence of entries that successive \<open>take\<close> calls on \<open>c\<close>
  deliver, up to the end of the column or the first exception.
\<close>

function entries :: "Int64Cursor \<Rightarrow> Entry list" where
  "entries c =
     (case ensure_pending c of
        Inl x \<Rightarrow> []
      | Inr (b, c1) \<Rightarrow>
          if b then pending c1 # entries (c1\<lparr>has_pending := False\<rparr>) else [])"
  by pat_completeness auto
termination
proof (relation "measure remaining")
  show "wf (measure remaining)" by simp
next
  fix c :: Int64Cursor and p b c1
  assume "ensure_pending c = Inr p" and "(b, c1) = p" and b
  then have "ensure_pending c = Inr (True, c1)" by auto
  from ensure_pending_remaining [OF this]
  show "(c1\<lparr>has_pending := False\<rparr>, c) \<in> measure remaining"
    by (auto simp: remaining_def split: if_splits)
qed

declare entries.simps [simp del]

text \<open>
  \<open>failure c\<close> is how that sequence ends: \<open>None\<close> at the end of the column,
  \<open>Some x\<close> when the call after the last entry throws \<open>x\<close>.
\<close>

function failure :: "Int64Cursor \<Rightarrow> error option" where
  "failure c =
     (case ensure_pending c of
        Inl x \<Rightarrow> Some x
      | Inr (b, c1) \<Rightarrow> if b then failure (c1\<lparr>has_pending := False\<rparr>) else None)"
  by pat_completeness auto
termination
proof (relation "measure remaining")
  show "wf (measure remaining)" by simp
next
  fix c :: Int64Cursor and p b c1
  assume "ensure_pending c = Inr p" and "(b, c1) = p" and b
  then have "ensure_pending c = Inr (True, c1)" by auto
  from ensure_pending_remaining [OF this]
  show "(c1\<lparr>has_pending := False\<rparr>, c) \<in> measure remaining"
    by (auto simp: remaining_def split: if_splits)
qed

declare failure.simps [simp del]

text \<open>
  The entries of a batch in which every level has a value, and the cursors that
  stand between two levels of such a batch with such batches still to come.
\<close>

definition value_entry :: "(int \<times> int) \<times> int \<Rightarrow> Entry" where
  "value_entry lv =
     \<lparr>e_def = fst (fst lv), e_rep = snd (fst lv), e_has_value = True, e_value = snd lv,
      e_valid = True\<rparr>"

fun batch_entries :: "read_result \<Rightarrow> Entry list" where
  "batch_entries (Batch ls vs) = map value_entry (zip ls vs)"
| "batch_entries (ReadThrows m) = []"

fun full_batch :: "int \<Rightarrow> read_result \<Rightarrow> bool" where
  "full_batch mdef (Batch ls vs) =
     (ls \<noteq> [] \<and> length vs = length ls \<and> list_all (\<lambda>l. fst l = mdef) ls)"
| "full_batch mdef (ReadThrows m) = False"

definition in_full_batches :: "Int64Cursor \<Rightarrow> bool" where
  "in_full_batches c =
     (\<not> eof c \<and> \<not> has_pending c \<and> max_def c \<noteq> 0 \<and> max_rep c \<noteq> 0 \<and>
      value_idx c = level_idx c \<and> level_idx c \<le> length (levbuf c) \<and>
      length (valbuf c) = length (levbuf c) \<and>
      list_all (\<lambda>l. fst l = max_def c) (levbuf c) \<and>
      list_all (full_batch (max_def c)) (rdr c))"

subsection \<open>Files, schemas and row groups\<close>

datatype physical_type = INT64 | BOOLEAN | OTHER

record ColumnDescriptor =
  col_path :: string                 \<comment> \<open>\<open>path()->ToDotString()\<close>\<close>
  col_type :: physical_type
  max_definition_level :: int
  max_repetition_level :: int

type_synonym SchemaDescriptor = "ColumnDescriptor list"

record RowGroup =
  num_rows :: nat
  columns :: "column_reader list"

record ParquetFile =
  schema :: SchemaDescriptor
  row_groups :: "RowGroup list"

text \<open>\<open>rg->Column(i)\<close>: the library throws when the row group has no such column.\<close>

definition Column :: "RowGroup \<Rightarrow> nat \<Rightarrow> error + column_reader" where
  "Column rg i =
     (if i < length (columns rg) then Inr (columns rg ! i)
      else Inl (ParquetError ''column index out of range''))"

fun find_col_idx_from :: "nat \<Rightarrow> ColumnDescriptor list \<Rightarrow> string \<Rightarrow> int" where
  "find_col_idx_from i [] name = - 1"
| "find_col_idx_from i (c # cs) name =
     (if col_path c = name then int i else find_col_idx_from (Suc i) cs name)"

definition find_col_idx :: "SchemaDescriptor \<Rightarrow> string \<Rightarrow> int" where
  "find_col_idx sch name = find_col_idx_from 0 sch name"

text \<open>
  The constructor \<open>Int64Cursor(col, descr)\<close>; the \<open>dynamic_cast\<close> succeeds exactly
  for a column of physical type INT64.
\<close>

definition fresh_cursor :: "column_reader \<Rightarrow> int \<Rightarrow> int \<Rightarrow> Int64Cursor" where
  "fresh_cursor col mdef mrep =
     \<lparr>rdr = col, max_def = mdef, max_rep = mrep,
      eof = False, has_pending = False, pending = Entry0,
      levbuf = [], valbuf = [], level_idx = 0, value_idx = 0\<rparr>"

definition Int64Cursor_new :: "column_reader \<Rightarrow> ColumnDescriptor \<Rightarrow> error + Int64Cursor" where
  "Int64Cursor_new col descr =
     (if col_type descr \<noteq> INT64 then Inl (RuntimeError ''Column is not INT64'')
      else Inr (fresh_cursor col (max_definition_level descr) (max_repetition_level descr)))"

text \<open>\<open>Int64Cursor(rg->Column(i), schema->Column(i))\<close> for an index \<open>i\<close> that was found.\<close>

definition cursor_at :: "SchemaDescriptor \<Rightarrow> RowGroup \<Rightarrow> int \<Rightarrow> error + Int64Cursor" where
  "cursor_at sch rg i = bnd (Column rg (nat i)) (\<lambda>col. Int64Cursor_new col (sch ! nat i))"

text \<open>
  The three streamer structs have the same members: the open file (reader,
  metadata and schema) and \<open>rg_idx\<close>.
\<close>

record FileStreamer =
  fs_file :: ParquetFile
  rg_idx :: nat

subsection \<open>FileStreamerDeltaCols\<close>

record DeltaSelect =
  dsel_ts :: bool
  dsel_firstId :: bool
  dsel_lastId :: bool
  dsel_eventTime :: bool
  dsel_ask_px :: bool
  dsel_ask_qty :: bool
  dsel_bid_px :: bool
  dsel_bid_qty :: bool

text \<open>The ten output vectors of \<open>next_rg\<close> (the members \<open>ts_\<close>, \<open>fid_\<close>, ... of the reader).\<close>

record DeltaBufs =
  d_ts :: "int list"
  d_fid :: "int list"
  d_lid :: "int list"
  d_evt :: "int list"
  d_ask_off :: "u32 list"
  d_ask_px :: "int list"
  d_ask_qty :: "int list"
  d_bid_off :: "u32 list"
  d_bid_px :: "int list"
  d_bid_qty :: "int list"

text \<open>The cursors \<open>next_rg\<close> opens on one row group.\<close>

record DeltaCursors =
  c_ts :: Int64Cursor
  c_fid :: "Int64Cursor option"
  c_lid :: "Int64Cursor option"
  c_evt :: "Int64Cursor option"
  c_apx :: "Int64Cursor option"
  c_aqty :: "Int64Cursor option"
  c_bpx :: "Int64Cursor option"
  c_bqty :: "Int64Cursor option"

text \<open>
  \<open>if (sel) { i = find_col_idx(schema, name); if (i < 0) throw ...; c.emplace(...) }\<close>
\<close>

definition open_selected ::
  "bool \<Rightarrow> SchemaDescriptor \<Rightarrow> RowGroup \<Rightarrow> string \<Rightarrow> string \<Rightarrow> error + Int64Cursor option" where
  "open_selected sel sch rg name msg =
     (if sel
      then (let i = find_col_idx sch name
            in if i < 0 then Inl (RuntimeError msg)
               else bnd (cursor_at sch rg i) (\<lambda>c. Inr (Some c)))
      else Inr None)"

definition delta_open_cursors ::
  "DeltaSelect \<Rightarrow> SchemaDescriptor \<Rightarrow> RowGroup \<Rightarrow> error + DeltaCursors" where
  "delta_open_cursors sel sch rg =
     (let ts_i = find_col_idx sch ''ts''
      in if ts_i < 0 then Inl (RuntimeError ''depth: missing ts'')
         else
           bnd (cursor_at sch rg ts_i) (\<lambda>ts.
           bnd (open_selected (dsel_firstId sel) sch rg ''firstId'' ''depth: missing firstId'') (\<lambda>fid.
           bnd (open_selected (dsel_lastId sel) sch rg ''lastId'' ''depth: missing lastId'') (\<lambda>lid.
           bnd (open_selected (dsel_eventTime sel) sch rg ''eventTime'' ''depth: missing eventTime'') (\<lambda>evt.
           bnd (open_selected (dsel_ask_px sel) sch rg
                  ''ask.list.element.px'' ''depth: missing ask px'') (\<lambda>apx.
           bnd (open_selected (dsel_ask_qty sel) sch rg
                  ''ask.list.element.qty'' ''depth: missing ask qty'') (\<lambda>aqty.
           bnd (open_selected (dsel_bid_px sel) sch rg
                  ''bid.list.element.px'' ''depth: missing bid px'') (\<lambda>bpx.
           bnd (open_selected (dsel_bid_qty sel) sch rg
                  ''bid.list.element.qty'' ''depth: missing bid qty'') (\<lambda>bqty.
           Inr \<lparr>c_ts = ts, c_fid = fid, c_lid = lid, c_evt = evt,
                c_apx = apx, c_aqty = aqty, c_bpx = bpx, c_bqty = bqty\<rparr>)))))))))"

text \<open>
  \<open>if (sel) e = c->take();\<close> on an optional cursor. The cursor was emplaced under
  the same flag, so the disengaged case does not occur; it leaves \<open>Entry{}\<close>.
\<close>

definition take_selected ::
  "bool \<Rightarrow> Int64Cursor option \<Rightarrow> error + (Entry \<times> Int64Cursor option)" where
  "take_selected sel c =
     (if sel
      then (case c of
              None \<Rightarrow> Inr (Entry0, None)
            | Some cur \<Rightarrow> bnd (take_entry cur) (\<lambda>(e, cur1). Inr (e, Some cur1)))
      else Inr (Entry0, c))"

text \<open>
  One book side of one row: the \<open>if (need_asks) { ... }\<close> block (the block for the
  bids is the same text on the bid cursors and vectors). The output pointers are
  \<open>in_range ? &vec : nullptr\<close>. The result is the number added, the cursors and
  the two vectors.
\<close>

definition out_ptr :: "bool \<Rightarrow> int list \<Rightarrow> int list option" where
  "out_ptr in_range vec = (if in_range then Some vec else None)"

definition deref :: "int list option \<Rightarrow> int list \<Rightarrow> int list" where
  "deref p vec = (case p of None \<Rightarrow> vec | Some v \<Rightarrow> v)"

definition side_for_row ::
  "bool \<Rightarrow> bool \<Rightarrow> Int64Cursor option \<Rightarrow> Int64Cursor option \<Rightarrow> bool \<Rightarrow> int list \<Rightarrow> int list \<Rightarrow>
   error + (u32 \<times> Int64Cursor option \<times> Int64Cursor option \<times> int list \<times> int list)" where
  "side_for_row sel_px sel_qty px qty in_range out_px out_qty =
     (if sel_px \<or> sel_qty
      then
        (if sel_px \<and> sel_qty
         then (case (px, qty) of
                 (Some p, Some q) \<Rightarrow>
                   bnd (append_list_pairs_for_row_typed p q
                          (out_ptr in_range out_px) (out_ptr in_range out_qty))
                     (\<lambda>(added, p1, q1, o1, o2).
                        Inr (added, Some p1, Some q1, deref o1 out_px, deref o2 out_qty))
               | _ \<Rightarrow> Inr (0, px, qty, out_px, out_qty))
         else if sel_px
         then (case px of
                 Some p \<Rightarrow>
                   bnd (append_list_from_leaf_for_row p (out_ptr in_range out_px))
                     (\<lambda>(added, p1, o1). Inr (added, Some p1, qty, deref o1 out_px, out_qty))
               | None \<Rightarrow> Inr (0, px, qty, out_px, out_qty))
         else (case qty of
                 Some q \<Rightarrow>
                   bnd (append_list_from_leaf_for_row q (out_ptr in_range out_qty))
                     (\<lambda>(added, q1, o2). Inr (added, px, Some q1, out_px, deref o2 out_qty))
               | None \<Rightarrow> Inr (0, px, qty, out_px, out_qty)))
      else Inr (0, px, qty, out_px, out_qty))"

text \<open>
  \<open>if (flag) vec.push_back(x)\<close> and \<open>if (need) off.push_back(off.back() + added)\<close>.
\<close>

definition push_if :: "bool \<Rightarrow> 'a list \<Rightarrow> 'a \<Rightarrow> 'a list" where
  "push_if flag vec x = (if flag then vec @ [x] else vec)"

definition push_offset :: "bool \<Rightarrow> u32 list \<Rightarrow> u32 \<Rightarrow> u32 list" where
  "push_offset need off added = (if need then off @ [last off + added] else off)"

text \<open>The body of \<open>for (int64_t r = 0; r < rows; ++r)\<close>.\<close>

definition delta_row ::
  "int \<Rightarrow> int \<Rightarrow> DeltaSelect \<Rightarrow> DeltaCursors \<Rightarrow> DeltaBufs \<Rightarrow> error + (DeltaCursors \<times> DeltaBufs)" where
  "delta_row start_ns end_ns sel cs b =
     bnd (take_entry (c_ts cs)) (\<lambda>(e_ts, ts1).
     bnd (take_selected (dsel_firstId sel) (c_fid cs)) (\<lambda>(e_fid, fid1).
     bnd (take_selected (dsel_lastId sel) (c_lid cs)) (\<lambda>(e_lid, lid1).
     bnd (take_selected (dsel_eventTime sel) (c_evt cs)) (\<lambda>(e_evt, evt1).
     let in_range = (e_value e_ts \<ge> start_ns \<and> e_value e_ts < end_ns)
     in
     bnd (side_for_row (dsel_ask_px sel) (dsel_ask_qty sel) (c_apx cs) (c_aqty cs)
            in_range (d_ask_px b) (d_ask_qty b)) (\<lambda>(asks_added, apx1, aqty1, ask_px1, ask_qty1).
     bnd (side_for_row (dsel_bid_px sel) (dsel_bid_qty sel) (c_bpx cs) (c_bqty cs)
            in_range (d_bid_px b) (d_bid_qty b)) (\<lambda>(bids_added, bpx1, bqty1, bid_px1, bid_qty1).
     let cs1 = \<lparr>c_ts = ts1, c_fid = fid1, c_lid = lid1, c_evt = evt1,
                c_apx = apx1, c_aqty = aqty1, c_bpx = bpx1, c_bqty = bqty1\<rparr>;
         b1 = b\<lparr>d_ask_px := ask_px1, d_ask_qty := ask_qty1,
                d_bid_px := bid_px1, d_bid_qty := bid_qty1\<rparr>
     in if in_range
        then Inr (cs1,
               b1\<lparr>d_ts := d_ts b @ [e_value e_ts],
                  d_fid := push_if (dsel_firstId sel) (d_fid b) (e_value e_fid),
                  d_lid := push_if (dsel_lastId sel) (d_lid b) (e_value e_lid),
                  d_evt := push_if (dsel_eventTime sel) (d_evt b) (e_value e_evt),
                  d_ask_off := push_offset (dsel_ask_px sel \<or> dsel_ask_qty sel)
                                 (d_ask_off b) asks_added,
                  d_bid_off := push_offset (dsel_bid_px sel \<or> dsel_bid_qty sel)
                                 (d_bid_off b) bids_added\<rparr>)
        else Inr (cs1, b1)))))))"

text \<open>The \<open>for\<close> loop, by the number of rows still to read.\<close>

fun delta_rows ::
  "nat \<Rightarrow> int \<Rightarrow> int \<Rightarrow> DeltaSelect \<Rightarrow> DeltaCursors \<Rightarrow> DeltaBufs \<Rightarrow>
   error + (DeltaCursors \<times> DeltaBufs)" where
  "delta_rows 0 start_ns end_ns sel cs b = Inr (cs, b)"
| "delta_rows (Suc k) start_ns end_ns sel cs b =
     bnd (delta_row start_ns end_ns sel cs b)
       (\<lambda>(cs1, b1). delta_rows k start_ns end_ns sel cs1 b1)"

text \<open>
  The buffers after the ten \<open>clear()\<close> calls and the two initial
  \<open>off.push_back(0)\<close>.
\<close>

definition delta_clear :: "DeltaSelect \<Rightarrow> DeltaBufs" where
  "delta_clear sel =
     \<lparr>d_ts = [], d_fid = [], d_lid = [], d_evt = [],
      d_ask_off = (if dsel_ask_px sel \<or> dsel_ask_qty sel then [0] else []),
      d_ask_px = [], d_ask_qty = [],
      d_bid_off = (if dsel_bid_px sel \<or> dsel_bid_qty sel then [0] else []),
      d_bid_px = [], d_bid_qty = []\<rparr>"

text \<open>
  \<open>FileStreamerDeltaCols::next_rg\<close>. The result is the returned flag, the streamer
  and the vectors. When it throws, the vectors hold part of a row group; the
  batch reader never reads them in that state (the next row group clears them
  first), so the exception carries no vectors.
\<close>

function delta_next_rg ::
  "int \<Rightarrow> int \<Rightarrow> DeltaSelect \<Rightarrow> FileStreamer \<Rightarrow> DeltaBufs \<Rightarrow>
   error + (bool \<times> FileStreamer \<times> DeltaBufs)" where
  "delta_next_rg start_ns end_ns sel fs b =
     (if rg_idx fs \<ge> length (row_groups (fs_file fs)) then Inr (False, fs, b)
      else
        (let rg = row_groups (fs_file fs) ! rg_idx fs;
             fs1 = fs\<lparr>rg_idx := rg_idx fs + 1\<rparr>
         in case delta_open_cursors sel (schema (fs_file fs)) rg of
              Inl x \<Rightarrow> Inl x
            | Inr cs \<Rightarrow>
                (case delta_rows (num_rows rg) start_ns end_ns sel cs (delta_clear sel) of
                   Inl x \<Rightarrow> Inl x
                 | Inr (cs1, b1) \<Rightarrow>
                     if d_ts b1 \<noteq> [] then Inr (True, fs1, b1)
                     else delta_next_rg start_ns end_ns sel fs1 b1)))"
  by pat_completeness auto
termination
  by (relation "measure (\<lambda>(s, e, sel, fs, b). length (row_groups (fs_file fs)) - rg_idx fs)")
     auto

declare delta_next_rg.simps [simp del]

subsection \<open>FileStreamerTopCols and FileStreamerTradeCols\<close>

text \<open>
  The read loop of \<open>read_required_i64_column\<close> and \<open>read_required_bool_column\<close>:
  \<open>acc\<close> is \<open>out[0..done)\<close>, so \<open>done = length acc\<close>. The loop ends when \<open>done\<close>
  reaches \<open>rows\<close> or a call returns neither levels nor values; it throws unless
  \<open>done = rows\<close>. A Boolean column delivers its values as 0 and 1.
\<close>

function read_required_loop ::
  "string \<Rightarrow> column_reader \<Rightarrow> nat \<Rightarrow> int list \<Rightarrow> error + int list" where
  "read_required_loop msg r rows acc =
     (if length acc < rows
      then (case ReadBatch r of
              Inl x \<Rightarrow> Inl x
            | Inr (ls, vs, rest) \<Rightarrow>
                if length ls = 0 \<and> length vs = 0
                then (if length acc \<noteq> rows then Inl (RuntimeError msg) else Inr acc)
                else read_required_loop msg rest rows (acc @ vs))
      else (if length acc \<noteq> rows then Inl (RuntimeError msg) else Inr acc))"
  by pat_completeness auto
termination
proof (relation "measure (\<lambda>(msg, r, rows, acc). length r)")
  show "wf (measure (\<lambda>(msg, r, rows, acc). length r))" by simp
next
  fix msg :: string and r :: column_reader and rows :: nat and acc :: "int list"
    and x2 ls y vs rest
  assume "ReadBatch r = Inr x2" and "(ls, y) = x2" and "(vs, rest) = y"
     and "\<not> (length ls = 0 \<and> length vs = 0)"
  then have "length rest < length r"
    by (cases r rule: ReadBatch.cases) auto
  then show "((msg, rest, rows, acc @ vs), (msg, r, rows, acc))
             \<in> measure (\<lambda>(msg, r, rows, acc). length r)"
    by simp
qed

declare read_required_loop.simps [simp del]

definition read_required_i64_column :: "RowGroup \<Rightarrow> nat \<Rightarrow> error + int list" where
  "read_required_i64_column rg col_idx =
     bnd (Column rg col_idx)
       (\<lambda>col. read_required_loop ''Short read in required column'' col (num_rows rg) [])"

definition read_required_bool_column :: "RowGroup \<Rightarrow> nat \<Rightarrow> error + int list" where
  "read_required_bool_column rg col_idx =
     bnd (Column rg col_idx)
       (\<lambda>col. read_required_loop ''Short read in required bool column'' col (num_rows rg) [])"

text \<open>\<open>vec.resize(n)\<close> on a vector of integers.\<close>

definition resize :: "nat \<Rightarrow> int list \<Rightarrow> int list" where
  "resize n vec = take n vec @ replicate (n - length vec) 0"

definition resize_or_clear :: "bool \<Rightarrow> nat \<Rightarrow> int list \<Rightarrow> int list" where
  "resize_or_clear sel n vec = (if sel then resize n vec else [])"

text \<open>
  The scatter loop
  \<open>for (i = 0; i < ts_all.size(); ++i) if (ts_all[i] in window) out_vec[w++] = tmp[i];\<close>
  from index \<open>i\<close> on: \<open>ts_rest\<close> is \<open>ts_all\<close> from \<open>i\<close>.
\<close>

fun scatter_loop ::
  "int \<Rightarrow> int \<Rightarrow> int list \<Rightarrow> int list \<Rightarrow> nat \<Rightarrow> nat \<Rightarrow> int list \<Rightarrow> int list" where
  "scatter_loop start_ns end_ns [] tmp i w out_vec = out_vec"
| "scatter_loop start_ns end_ns (t # ts_rest) tmp i w out_vec =
     (if t \<ge> start_ns \<and> t < end_ns
      then scatter_loop start_ns end_ns ts_rest tmp (i + 1) (w + 1) (out_vec[w := tmp ! i])
      else scatter_loop start_ns end_ns ts_rest tmp (i + 1) w out_vec)"

text \<open>The count loop \<open>for (int64_t t : ts_all) if (t >= start_ns && t < end_ns) ++cnt;\<close>\<close>

fun count_in_window :: "int \<Rightarrow> int \<Rightarrow> int list \<Rightarrow> nat" where
  "count_in_window start_ns end_ns [] = 0"
| "count_in_window start_ns end_ns (t # ts_rest) =
     (if t \<ge> start_ns \<and> t < end_ns then 1 else 0) + count_in_window start_ns end_ns ts_rest"

text \<open>
  The lambdas \<open>read_and_scatter\<close>, \<open>read_and_scatter_i64\<close> and
  \<open>read_and_scatter_bool\<close>, called under \<open>if (sel.x)\<close>: \<open>prefix\<close> is \<open>top: missing\<close>
  or \<open>trade: missing\<close> (with the trailing blank).
\<close>

definition read_and_scatter ::
  "bool \<Rightarrow> string \<Rightarrow> bool \<Rightarrow> SchemaDescriptor \<Rightarrow> RowGroup \<Rightarrow> int \<Rightarrow> int \<Rightarrow> int list \<Rightarrow>
   string \<Rightarrow> int list \<Rightarrow> error + int list" where
  "read_and_scatter is_bool prefix sel sch rg start_ns end_ns ts_all name out_vec =
     (if sel
      then (let idx = find_col_idx sch name
            in if idx < 0 then Inl (RuntimeError (prefix @ name))
               else bnd (if is_bool then read_required_bool_column rg (nat idx)
                         else read_required_i64_column rg (nat idx))
                      (\<lambda>tmp. Inr (scatter_loop start_ns end_ns ts_all tmp 0 0 out_vec)))
      else Inr out_vec)"

record TopSelect =
  tsel_ts :: bool
  tsel_ask_px :: bool
  tsel_ask_qty :: bool
  tsel_bid_px :: bool
  tsel_bid_qty :: bool
  tsel_valu :: bool
  tsel_min_bid_px :: bool
  tsel_max_bid_px :: bool
  tsel_min_ask_px :: bool
  tsel_max_ask_px :: bool
  tsel_min_bid_ts :: bool
  tsel_max_bid_ts :: bool
  tsel_min_ask_ts :: bool
  tsel_max_ask_ts :: bool

record TopBufs =
  t_ts :: "int list"
  t_apx :: "int list"
  t_aq :: "int list"
  t_bpx :: "int list"
  t_bq :: "int list"
  t_val :: "int list"
  t_min_bpx :: "int list"
  t_max_bpx :: "int list"
  t_min_apx :: "int list"
  t_max_apx :: "int list"
  t_min_bts :: "int list"
  t_max_bts :: "int list"
  t_min_ats :: "int list"
  t_max_ats :: "int list"

text \<open>The resizes of one row group with \<open>cnt\<close> rows in the window.\<close>

definition top_resize :: "TopSelect \<Rightarrow> nat \<Rightarrow> TopBufs \<Rightarrow> TopBufs" where
  "top_resize sel cnt b =
     \<lparr>t_ts = resize cnt (t_ts b),
      t_apx = resize_or_clear (tsel_ask_px sel) cnt (t_apx b),
      t_aq = resize_or_clear (tsel_ask_qty sel) cnt (t_aq b),
      t_bpx = resize_or_clear (tsel_bid_px sel) cnt (t_bpx b),
      t_bq = resize_or_clear (tsel_bid_qty sel) cnt (t_bq b),
      t_val = resize_or_clear (tsel_valu sel) cnt (t_val b),
      t_min_bpx = resize_or_clear (tsel_min_bid_px sel) cnt (t_min_bpx b),
      t_max_bpx = resize_or_clear (tsel_max_bid_px sel) cnt (t_max_bpx b),
      t_min_apx = resize_or_clear (tsel_min_ask_px sel) cnt (t_min_apx b),
      t_max_apx = resize_or_clear (tsel_max_ask_px sel) cnt (t_max_apx b),
      t_min_bts = resize_or_clear (tsel_min_bid_ts sel) cnt (t_min_bts b),
      t_max_bts = resize_or_clear (tsel_max_bid_ts sel) cnt (t_max_bts b),
      t_min_ats = resize_or_clear (tsel_min_ask_ts sel) cnt (t_min_ats b),
      t_max_ats = resize_or_clear (tsel_max_ask_ts sel) cnt (t_max_ats b)\<rparr>"

text \<open>The thirteen \<open>if (sel.x) read_and_scatter(name, vec)\<close> statements, in order.\<close>

definition top_scatter_all ::
  "TopSelect \<Rightarrow> SchemaDescriptor \<Rightarrow> RowGroup \<Rightarrow> int \<Rightarrow> int \<Rightarrow> int list \<Rightarrow> TopBufs \<Rightarrow>
   error + TopBufs" where
  "top_scatter_all sel sch rg s e ts_all b =
     (let rs = read_and_scatter False ''top: missing ''
      in
      bnd (rs (tsel_ask_px sel) sch rg s e ts_all ''ask_px'' (t_apx b)) (\<lambda>apx.
      bnd (rs (tsel_ask_qty sel) sch rg s e ts_all ''ask_qty'' (t_aq b)) (\<lambda>aq.
      bnd (rs (tsel_bid_px sel) sch rg s e ts_all ''bid_px'' (t_bpx b)) (\<lambda>bpx.
      bnd (rs (tsel_bid_qty sel) sch rg s e ts_all ''bid_qty'' (t_bq b)) (\<lambda>bq.
      bnd (rs (tsel_valu sel) sch rg s e ts_all ''valu'' (t_val b)) (\<lambda>val.
      bnd (rs (tsel_min_bid_px sel) sch rg s e ts_all ''min_bid_px'' (t_min_bpx b)) (\<lambda>min_bpx.
      bnd (rs (tsel_max_bid_px sel) sch rg s e ts_all ''max_bid_px'' (t_max_bpx b)) (\<lambda>max_bpx.
      bnd (rs (tsel_min_ask_px sel) sch rg s e ts_all ''min_ask_px'' (t_min_apx b)) (\<lambda>min_apx.
      bnd (rs (tsel_max_ask_px sel) sch rg s e ts_all ''max_ask_px'' (t_max_apx b)) (\<lambda>max_apx.
      bnd (rs (tsel_min_bid_ts sel) sch rg s e ts_all ''min_bid_ts'' (t_min_bts b)) (\<lambda>min_bts.
      bnd (rs (tsel_max_bid_ts sel) sch rg s e ts_all ''max_bid_ts'' (t_max_bts b)) (\<lambda>max_bts.
      bnd (rs (tsel_min_ask_ts sel) sch rg s e ts_all ''min_ask_ts'' (t_min_ats b)) (\<lambda>min_ats.
      bnd (rs (tsel_max_ask_ts sel) sch rg s e ts_all ''max_ask_ts'' (t_max_ats b)) (\<lambda>max_ats.
      Inr \<lparr>t_ts = t_ts b, t_apx = apx, t_aq = aq, t_bpx = bpx, t_bq = bq, t_val = val,
           t_min_bpx = min_bpx, t_max_bpx = max_bpx, t_min_apx = min_apx,
           t_max_apx = max_apx, t_min_bts = min_bts, t_max_bts = max_bts,
           t_min_ats = min_ats, t_max_ats = max_ats\<rparr>))))))))))))))"

text \<open>
  \<open>FileStreamerTopCols::next_rg\<close>. As for the depth streamer, an exception
  carries no vectors: the batch reader does not read them before the next row
  group has resized and rewritten them.
\<close>

function top_next_rg ::
  "int \<Rightarrow> int \<Rightarrow> TopSelect \<Rightarrow> FileStreamer \<Rightarrow> TopBufs \<Rightarrow>
   error + (bool \<times> FileStreamer \<times> TopBufs)" where
  "top_next_rg start_ns end_ns sel fs b =
     (if rg_idx fs \<ge> length (row_groups (fs_file fs)) then Inr (False, fs, b)
      else
        (let rg = row_groups (fs_file fs) ! rg_idx fs;
             fs1 = fs\<lparr>rg_idx := rg_idx fs + 1\<rparr>;
             ts_i = find_col_idx (schema (fs_file fs)) ''ts''
         in if ts_i < 0 then Inl (RuntimeError ''top: missing ts'')
            else
              (case read_required_i64_column rg (nat ts_i) of
                 Inl x \<Rightarrow> Inl x
               | Inr ts_all \<Rightarrow>
                   (let cnt = count_in_window start_ns end_ns ts_all
                    in if cnt = 0 then top_next_rg start_ns end_ns sel fs1 b
                       else
                         (let b1 = top_resize sel cnt b;
                              b2 = b1\<lparr>t_ts := scatter_loop start_ns end_ns ts_all ts_all
                                                  0 0 (t_ts b1)\<rparr>
                          in case top_scatter_all sel (schema (fs_file fs)) rg
                                    start_ns end_ns ts_all b2 of
                               Inl x \<Rightarrow> Inl x
                             | Inr b3 \<Rightarrow> Inr (True, fs1, b3))))))"
  by pat_completeness auto
termination
  by (relation "measure (\<lambda>(s, e, sel, fs, b). length (row_groups (fs_file fs)) - rg_idx fs)")
     auto

declare top_next_rg.simps [simp del]

record TradeSelect =
  trsel_ts :: bool
  trsel_px :: bool
  trsel_qty :: bool
  trsel_tradeId :: bool
  trsel_buyerOrderId :: bool
  trsel_sellerOrderId :: bool
  trsel_tradeTime :: bool
  trsel_isMarket :: bool
  trsel_eventTime :: bool

record TradeBufs =
  tr_ts :: "int list"
  tr_px :: "int list"
  tr_qty :: "int list"
  tr_tid :: "int list"
  tr_boid :: "int list"
  tr_soid :: "int list"
  tr_ttime :: "int list"
  tr_isMkt :: "int list"
  tr_evt :: "int list"

definition trade_resize :: "TradeSelect \<Rightarrow> nat \<Rightarrow> TradeBufs \<Rightarrow> TradeBufs" where
  "trade_resize sel cnt b =
     \<lparr>tr_ts = resize cnt (tr_ts b),
      tr_px = resize_or_clear (trsel_px sel) cnt (tr_px b),
      tr_qty = resize_or_clear (trsel_qty sel) cnt (tr_qty b),
      tr_tid = resize_or_clear (trsel_tradeId sel) cnt (tr_tid b),
      tr_boid = resize_or_clear (trsel_buyerOrderId sel) cnt (tr_boid b),
      tr_soid = resize_or_clear (trsel_sellerOrderId sel) cnt (tr_soid b),
      tr_ttime = resize_or_clear (trsel_tradeTime sel) cnt (tr_ttime b),
      tr_isMkt = resize_or_clear (trsel_isMarket sel) cnt (tr_isMkt b),
      tr_evt = resize_or_clear (trsel_eventTime sel) cnt (tr_evt b)\<rparr>"

definition trade_scatter_all ::
  "TradeSelect \<Rightarrow> SchemaDescriptor \<Rightarrow> RowGroup \<Rightarrow> int \<Rightarrow> int \<Rightarrow> int list \<Rightarrow> TradeBufs \<Rightarrow>
   error + TradeBufs" where
  "trade_scatter_all sel sch rg s e ts_all b =
     (let rs = read_and_scatter False ''trade: missing '';
          rsb = read_and_scatter True ''trade: missing ''
      in
      bnd (rs (trsel_px sel) sch rg s e ts_all ''px'' (tr_px b)) (\<lambda>px.
      bnd (rs (trsel_qty sel) sch rg s e ts_all ''qty'' (tr_qty b)) (\<lambda>qty.
      bnd (rs (trsel_tradeId sel) sch rg s e ts_all ''tradeId'' (tr_tid b)) (\<lambda>tid.
      bnd (rs (trsel_buyerOrderId sel) sch rg s e ts_all ''buyerOrderId'' (tr_boid b)) (\<lambda>boid.
      bnd (rs (trsel_sellerOrderId sel) sch rg s e ts_all ''sellerOrderId'' (tr_soid b)) (\<lambda>soid.
      bnd (rs (trsel_tradeTime sel) sch rg s e ts_all ''tradeTime'' (tr_ttime b)) (\<lambda>ttime.
      bnd (rsb (trsel_isMarket sel) sch rg s e ts_all ''isMarket'' (tr_isMkt b)) (\<lambda>isMkt.
      bnd (rs (trsel_eventTime sel) sch rg s e ts_all ''eventTime'' (tr_evt b)) (\<lambda>evt.
      Inr \<lparr>tr_ts = tr_ts b, tr_px = px, tr_qty = qty, tr_tid = tid, tr_boid = boid,
           tr_soid = soid, tr_ttime = ttime, tr_isMkt = isMkt, tr_evt = evt\<rparr>)))))))))"

function trade_next_rg ::
  "int \<Rightarrow> int \<Rightarrow> TradeSelect \<Rightarrow> FileStreamer \<Rightarrow> TradeBufs \<Rightarrow>
   error + (bool \<times> FileStreamer \<times> TradeBufs)" where
  "trade_next_rg start_ns end_ns sel fs b =
     (if rg_idx fs \<ge> length (row_groups (fs_file fs)) then Inr (False, fs, b)
      else
        (let rg = row_groups (fs_file fs) ! rg_idx fs;
             fs1 = fs\<lparr>rg_idx := rg_idx fs + 1\<rparr>;
             ts_i = find_col_idx (schema (fs_file fs)) ''ts''
         in if ts_i < 0 then Inl (RuntimeError ''trade: missing ts'')
            else
              (case read_required_i64_column rg (nat ts_i) of
                 Inl x \<Rightarrow> Inl x
               | Inr ts_all \<Rightarrow>
                   (let cnt = count_in_window start_ns end_ns ts_all
                    in if cnt = 0 then trade_next_rg start_ns end_ns sel fs1 b
                       else
                         (let b1 = trade_resize sel cnt b;
                              b2 = b1\<lparr>tr_ts := scatter_loop start_ns end_ns ts_all ts_all
                                                   0 0 (tr_ts b1)\<rparr>
                          in case trade_scatter_all sel (schema (fs_file fs)) rg
                                    start_ns end_ns ts_all b2 of
                               Inl x \<Rightarrow> Inl x
                             | Inr b3 \<Rightarrow> Inr (True, fs1, b3))))))"
  by pat_completeness auto
termination
  by (relation "measure (\<lambda>(s, e, sel, fs, b). length (row_groups (fs_file fs)) - rg_idx fs)")
     auto

declare trade_next_rg.simps [simp del]

subsection \<open>The batch readers\<close>

record Candidate =
  path :: string
  file_start_ns :: int
  file_end_ns :: int

text \<open>
  The disk, as the readers see it: what \<open>ParquetFileReader::OpenFile\<close> gives for a
  path (a file, or an exception).
\<close>

type_synonym disk = "string \<Rightarrow> error + ParquetFile"

text \<open>The constructor of the three streamers.\<close>

definition FileStreamer_new :: "disk \<Rightarrow> string \<Rightarrow> error + FileStreamer" where
  "FileStreamer_new dsk p = bnd (dsk p) (\<lambda>f. Inr \<lparr>fs_file = f, rg_idx = 0\<rparr>)"

text \<open>\<open>fs::path(p).filename().string()\<close>: the part after the last slash.\<close>

definition filename :: "string \<Rightarrow> string" where
  "filename p = rev (takeWhile (\<lambda>c. c \<noteq> CHR ''/'') (rev p))"

text \<open>
  The members of the three \<open>Impl\<close> structs, which differ in the selection and the
  vectors only. \<open>m_cerr\<close> is not a member: it is the text the reader has written
  to \<open>std::cerr\<close>, one line per element. The debug output (\<open>g_debug\<close>) and the
  prefetch hint change neither a result nor a vector and are left out.
\<close>

record ('sel, 'bufs) Impl =
  m_files :: "Candidate list"
  m_file_idx :: nat
  m_fs :: "FileStreamer option"
  m_start_ns :: int
  m_end_ns :: int
  m_sel :: 'sel
  m_bufs :: 'bufs
  m_cur_file_base :: string
  m_cerr :: "string list"

definition Impl_new :: "Candidate list \<Rightarrow> int \<Rightarrow> int \<Rightarrow> 'sel \<Rightarrow> 'bufs \<Rightarrow> ('sel, 'bufs) Impl" where
  "Impl_new files s e sel empty_bufs =
     \<lparr>m_files = files, m_file_idx = 0, m_fs = None, m_start_ns = s, m_end_ns = e,
      m_sel = sel, m_bufs = empty_bufs, m_cur_file_base = [], m_cerr = []\<rparr>"

text \<open>
  The block \<open>if (!m_fs) { ... }\<close> at the head of the loop of \<open>next\<close>, the same text
  in the three readers: it returns false from \<open>next\<close> (\<open>Exhausted\<close>), logs a failed
  open and continues with the next file (\<open>OpenFailed\<close>), or goes on with a
  streamer (\<open>Opened\<close>).
\<close>

datatype ('sel, 'bufs) opened =
    Exhausted
  | OpenFailed "('sel, 'bufs) Impl"
  | Opened FileStreamer "('sel, 'bufs) Impl"

definition warn_open_failed :: "string \<Rightarrow> error \<Rightarrow> string" where
  "warn_open_failed p e = ''WARN: open failed: '' @ p @ '' : '' @ what e"

definition warn_read_failed :: "string \<Rightarrow> error \<Rightarrow> string" where
  "warn_read_failed p e = ''WARN: read failed: '' @ p @ '' : '' @ what e"

definition ensure_open :: "disk \<Rightarrow> ('sel, 'bufs) Impl \<Rightarrow> ('sel, 'bufs) opened" where
  "ensure_open dsk st =
     (case m_fs st of
        Some fs \<Rightarrow> Opened fs st
      | None \<Rightarrow>
          if m_file_idx st \<ge> length (m_files st) then Exhausted
          else (case FileStreamer_new dsk (path (m_files st ! m_file_idx st)) of
                  Inl e \<Rightarrow>
                    OpenFailed
                      (st\<lparr>m_file_idx := m_file_idx st + 1,
                          m_cerr := m_cerr st @
                            [warn_open_failed (path (m_files st ! m_file_idx st)) e]\<rparr>)
                | Inr fs \<Rightarrow>
                    Opened fs
                      (st\<lparr>m_fs := Some fs,
                          m_cur_file_base := filename (path (m_files st ! m_file_idx st))\<rparr>)))"

text \<open>
  The \<open>catch\<close> block of the read and the following \<open>if (!ok)\<close>: log, drop the
  streamer, go to the next file. \<open>m_files[m_file_idx]\<close> is in range whenever a
  streamer is open.
\<close>

definition read_failed :: "('sel, 'bufs) Impl \<Rightarrow> error \<Rightarrow> ('sel, 'bufs) Impl" where
  "read_failed st e =
     st\<lparr>m_fs := None, m_file_idx := m_file_idx st + 1,
        m_cerr := m_cerr st @ [warn_read_failed (path (m_files st ! m_file_idx st)) e]\<rparr>"

definition file_done :: "('sel, 'bufs) Impl \<Rightarrow> 'bufs \<Rightarrow> ('sel, 'bufs) Impl" where
  "file_done st b = st\<lparr>m_fs := None, m_file_idx := m_file_idx st + 1, m_bufs := b\<rparr>"

definition next_measure :: "('sel, 'bufs) Impl \<Rightarrow> nat" where
  "next_measure st =
     2 * (length (m_files st) - m_file_idx st) + (case m_fs st of None \<Rightarrow> 0 | Some fs \<Rightarrow> 1)"

lemma ensure_open_OpenFailed:
  "ensure_open dsk st = OpenFailed st1 \<Longrightarrow> next_measure st1 < next_measure st"
  by (auto simp: ensure_open_def next_measure_def split: option.splits if_splits sum.splits)

lemma ensure_open_Opened_read_failed:
  "ensure_open dsk st = Opened fs st1 \<Longrightarrow> next_measure (read_failed st1 e) < next_measure st"
  by (auto simp: ensure_open_def next_measure_def read_failed_def
           split: option.splits if_splits sum.splits)

lemma ensure_open_Opened_file_done:
  "ensure_open dsk st = Opened fs st1 \<Longrightarrow> next_measure (file_done st1 b) < next_measure st"
  by (auto simp: ensure_open_def next_measure_def file_done_def
           split: option.splits if_splits sum.splits)

text \<open>A pointer into a vector, or \<open>nullptr\<close>: \<open>sel ? vec.data() : nullptr\<close>.\<close>

definition data_if :: "bool \<Rightarrow> 'a list \<Rightarrow> 'a list option" where
  "data_if sel vec = (if sel then Some vec else None)"

record DeltaColsView =
  dv_ts :: "int list option"
  dv_firstId :: "int list option"
  dv_lastId :: "int list option"
  dv_eventTime :: "int list option"
  dv_ask_off :: "u32 list option"
  dv_ask_px :: "int list option"
  dv_ask_qty :: "int list option"
  dv_bid_off :: "u32 list option"
  dv_bid_px :: "int list option"
  dv_bid_qty :: "int list option"
  dv_file :: string
  dv_n :: nat

definition delta_view :: "DeltaSelect \<Rightarrow> DeltaBufs \<Rightarrow> string \<Rightarrow> DeltaColsView" where
  "delta_view sel b base =
     \<lparr>dv_ts = data_if (dsel_ts sel) (d_ts b),
      dv_firstId = data_if (dsel_firstId sel) (d_fid b),
      dv_lastId = data_if (dsel_lastId sel) (d_lid b),
      dv_eventTime = data_if (dsel_eventTime sel) (d_evt b),
      dv_ask_off = data_if (dsel_ask_px sel \<or> dsel_ask_qty sel) (d_ask_off b),
      dv_ask_px = data_if (dsel_ask_px sel) (d_ask_px b),
      dv_ask_qty = data_if (dsel_ask_qty sel) (d_ask_qty b),
      dv_bid_off = data_if (dsel_bid_px sel \<or> dsel_bid_qty sel) (d_bid_off b),
      dv_bid_px = data_if (dsel_bid_px sel) (d_bid_px b),
      dv_bid_qty = data_if (dsel_bid_qty sel) (d_bid_qty b),
      dv_file = base,
      dv_n = length (d_ts b)\<rparr>"

lemma delta_next_rg_True:
  "delta_next_rg s e sel fs b = Inr (True, fs1, b1) \<Longrightarrow> d_ts b1 \<noteq> []"
proof (induction s e sel fs b rule: delta_next_rg.induct)
  case (1 s e sel fs b)
  let ?rg = "row_groups (fs_file fs) ! rg_idx fs"
  let ?fs1 = "fs\<lparr>rg_idx := rg_idx fs + 1\<rparr>"
  from "1.prems" have lt: "\<not> rg_idx fs \<ge> length (row_groups (fs_file fs))"
    by (subst (asm) delta_next_rg.simps) (auto split: if_splits)
  from "1.prems" lt obtain cs where cs: "delta_open_cursors sel (schema (fs_file fs)) ?rg = Inr cs"
    by (subst (asm) delta_next_rg.simps) (auto simp: Let_def split: sum.splits)
  from "1.prems" lt cs obtain cs1 b2
    where rows: "delta_rows (num_rows ?rg) s e sel cs (delta_clear sel) = Inr (cs1, b2)"
    by (subst (asm) delta_next_rg.simps) (auto simp: Let_def split: sum.splits)
  show ?case
  proof (cases "d_ts b2 \<noteq> []")
    case True
    with "1.prems" lt cs rows have "b1 = b2"
      by (subst (asm) delta_next_rg.simps) (simp add: Let_def)
    with True show ?thesis by simp
  next
    case False
    with "1.prems" lt cs rows have "delta_next_rg s e sel ?fs1 b2 = Inr (True, fs1, b1)"
      by (subst (asm) delta_next_rg.simps) (simp add: Let_def)
    from "1.IH" [OF lt refl refl cs rows refl False this] show ?thesis .
  qed
qed

text \<open>
  \<open>DeltaBatchReader::Impl::next\<close>. The view \<open>out\<close> is passed by reference and is
  written only when \<open>next\<close> returns true.
\<close>

function delta_next ::
  "disk \<Rightarrow> (DeltaSelect, DeltaBufs) Impl \<Rightarrow> DeltaColsView \<Rightarrow>
   bool \<times> DeltaColsView \<times> (DeltaSelect, DeltaBufs) Impl" where
  "delta_next dsk st out =
     (case ensure_open dsk st of
        Exhausted \<Rightarrow> (False, out, st)
      | OpenFailed st1 \<Rightarrow> delta_next dsk st1 out
      | Opened fs st1 \<Rightarrow>
          (case delta_next_rg (m_start_ns st1) (m_end_ns st1) (m_sel st1) fs (m_bufs st1) of
             Inl e \<Rightarrow> delta_next dsk (read_failed st1 e) out
           | Inr (ok, fs1, b1) \<Rightarrow>
               if \<not> ok then delta_next dsk (file_done st1 b1) out
               else if d_ts b1 = []
               then delta_next dsk (st1\<lparr>m_fs := Some fs1, m_bufs := b1\<rparr>) out
               else (True, delta_view (m_sel st1) b1 (m_cur_file_base st1),
                     st1\<lparr>m_fs := Some fs1, m_bufs := b1\<rparr>)))"
  by pat_completeness auto
termination
proof (relation "measure (\<lambda>(dsk, st, out). next_measure st)")
  show "wf (measure (\<lambda>(dsk, st, out). next_measure st))" by simp
next
  fix dsk :: disk and st st1 :: "(DeltaSelect, DeltaBufs) Impl" and out :: DeltaColsView
  assume "ensure_open dsk st = OpenFailed st1"
  then show "((dsk, st1, out), (dsk, st, out)) \<in> measure (\<lambda>(dsk, st, out). next_measure st)"
    by (simp add: ensure_open_OpenFailed)
next
  fix dsk :: disk and st st1 :: "(DeltaSelect, DeltaBufs) Impl" and out :: DeltaColsView
    and fs e
  assume "ensure_open dsk st = Opened fs st1"
  then show "((dsk, read_failed st1 e, out), (dsk, st, out))
             \<in> measure (\<lambda>(dsk, st, out). next_measure st)"
    by (simp add: ensure_open_Opened_read_failed)
next
  fix dsk :: disk and st st1 :: "(DeltaSelect, DeltaBufs) Impl" and out :: DeltaColsView
    and fs x y b1 ok fs1
  assume "ensure_open dsk st = Opened fs st1"
  then show "((dsk, file_done st1 b1, out), (dsk, st, out))
             \<in> measure (\<lambda>(dsk, st, out). next_measure st)"
    by (simp add: ensure_open_Opened_file_done)
next
  fix dsk :: disk and st st1 :: "(DeltaSelect, DeltaBufs) Impl" and out :: DeltaColsView
    and fs x2 ok y fs1 b1
  assume "delta_next_rg (m_start_ns st1) (m_end_ns st1) (m_sel st1) fs (m_bufs st1) = Inr x2"
     and "(ok, y) = x2" and "(fs1, b1) = y" and "\<not> \<not> ok" and "d_ts b1 = []"
  then have "delta_next_rg (m_start_ns st1) (m_end_ns st1) (m_sel st1) fs (m_bufs st1)
             = Inr (True, fs1, b1)" by auto
  from delta_next_rg_True [OF this] \<open>d_ts b1 = []\<close>
  show "((dsk, st1\<lparr>m_fs := Some fs1, m_bufs := b1\<rparr>, out), (dsk, st, out))
        \<in> measure (\<lambda>(dsk, st, out). next_measure st)"
    by simp
qed

declare delta_next.simps [simp del]

lemma length_scatter_loop [simp]:
  "length (scatter_loop s e ts_rest tmp i w out_vec) = length out_vec"
  by (induction ts_rest arbitrary: i w out_vec) simp_all

lemma length_resize [simp]: "length (resize n vec) = n"
  by (simp add: resize_def)

lemma top_scatter_all_ts:
  "top_scatter_all sel sch rg s e ts_all b = Inr b1 \<Longrightarrow> t_ts b1 = t_ts b"
  by (auto simp: top_scatter_all_def bnd_def Let_def split: sum.splits)

lemma trade_scatter_all_ts:
  "trade_scatter_all sel sch rg s e ts_all b = Inr b1 \<Longrightarrow> tr_ts b1 = tr_ts b"
  by (auto simp: trade_scatter_all_def bnd_def Let_def split: sum.splits)

lemma top_next_rg_True:
  "top_next_rg s e sel fs b = Inr (True, fs1, b1) \<Longrightarrow> t_ts b1 \<noteq> []"
proof (induction s e sel fs b rule: top_next_rg.induct)
  case (1 s e sel fs b)
  let ?rg = "row_groups (fs_file fs) ! rg_idx fs"
  let ?fs1 = "fs\<lparr>rg_idx := rg_idx fs + 1\<rparr>"
  let ?ts_i = "find_col_idx (schema (fs_file fs)) ''ts''"
  from "1.prems" have lt: "\<not> rg_idx fs \<ge> length (row_groups (fs_file fs))"
    by (subst (asm) top_next_rg.simps) (auto split: if_splits)
  from "1.prems" lt have ti: "\<not> ?ts_i < 0"
    by (subst (asm) top_next_rg.simps) (auto simp: Let_def split: if_splits)
  from "1.prems" lt ti obtain ts_all
    where ts: "read_required_i64_column ?rg (nat ?ts_i) = Inr ts_all"
    by (subst (asm) top_next_rg.simps) (auto simp: Let_def split: sum.splits)
  show ?case
  proof (cases "count_in_window s e ts_all = 0")
    case True
    with "1.prems" lt ti ts have "top_next_rg s e sel ?fs1 b = Inr (True, fs1, b1)"
      by (subst (asm) top_next_rg.simps) (simp add: Let_def)
    from "1.IH" [OF lt refl refl refl ti ts refl True this] show ?thesis .
  next
    case False
    let ?b1 = "top_resize sel (count_in_window s e ts_all) b"
    let ?b2 = "?b1\<lparr>t_ts := scatter_loop s e ts_all ts_all 0 0 (t_ts ?b1)\<rparr>"
    from "1.prems" lt ti ts False
    have "top_scatter_all sel (schema (fs_file fs)) ?rg s e ts_all ?b2 = Inr b1"
      by (subst (asm) top_next_rg.simps) (auto simp: Let_def split: sum.splits)
    from top_scatter_all_ts [OF this]
    have "length (t_ts b1) = count_in_window s e ts_all"
      by (simp add: top_resize_def)
    with False show ?thesis by auto
  qed
qed

lemma trade_next_rg_True:
  "trade_next_rg s e sel fs b = Inr (True, fs1, b1) \<Longrightarrow> tr_ts b1 \<noteq> []"
proof (induction s e sel fs b rule: trade_next_rg.induct)
  case (1 s e sel fs b)
  let ?rg = "row_groups (fs_file fs) ! rg_idx fs"
  let ?fs1 = "fs\<lparr>rg_idx := rg_idx fs + 1\<rparr>"
  let ?ts_i = "find_col_idx (schema (fs_file fs)) ''ts''"
  from "1.prems" have lt: "\<not> rg_idx fs \<ge> length (row_groups (fs_file fs))"
    by (subst (asm) trade_next_rg.simps) (auto split: if_splits)
  from "1.prems" lt have ti: "\<not> ?ts_i < 0"
    by (subst (asm) trade_next_rg.simps) (auto simp: Let_def split: if_splits)
  from "1.prems" lt ti obtain ts_all
    where ts: "read_required_i64_column ?rg (nat ?ts_i) = Inr ts_all"
    by (subst (asm) trade_next_rg.simps) (auto simp: Let_def split: sum.splits)
  show ?case
  proof (cases "count_in_window s e ts_all = 0")
    case True
    with "1.prems" lt ti ts have "trade_next_rg s e sel ?fs1 b = Inr (True, fs1, b1)"
      by (subst (asm) trade_next_rg.simps) (simp add: Let_def)
    from "1.IH" [OF lt refl refl refl ti ts refl True this] show ?thesis .
  next
    case False
    let ?b1 = "trade_resize sel (count_in_window s e ts_all) b"
    let ?b2 = "?b1\<lparr>tr_ts := scatter_loop s e ts_all ts_all 0 0 (tr_ts ?b1)\<rparr>"
    from "1.prems" lt ti ts False
    have "trade_scatter_all sel (schema (fs_file fs)) ?rg s e ts_all ?b2 = Inr b1"
      by (subst (asm) trade_next_rg.simps) (auto simp: Let_def split: sum.splits)
    from trade_scatter_all_ts [OF this]
    have "length (tr_ts b1) = count_in_window s e ts_all"
      by (simp add: trade_resize_def)
    with False show ?thesis by auto
  qed
qed

record TopColsView =
  tv_ts :: "int list option"
  tv_ask_px :: "int list option"
  tv_ask_qty :: "int list option"
  tv_bid_px :: "int list option"
  tv_bid_qty :: "int list option"
  tv_valu :: "int list option"
  tv_min_bid_px :: "int list option"
  tv_max_bid_px :: "int list option"
  tv_min_ask_px :: "int list option"
  tv_max_ask_px :: "int list option"
  tv_min_bid_ts :: "int list option"
  tv_max_bid_ts :: "int list option"
  tv_min_ask_ts :: "int list option"
  tv_max_ask_ts :: "int list option"
  tv_file :: string
  tv_n :: nat

definition top_view :: "TopSelect \<Rightarrow> TopBufs \<Rightarrow> string \<Rightarrow> TopColsView" where
  "top_view sel b base =
     \<lparr>tv_ts = data_if (tsel_ts sel) (t_ts b),
      tv_ask_px = data_if (tsel_ask_px sel) (t_apx b),
      tv_ask_qty = data_if (tsel_ask_qty sel) (t_aq b),
      tv_bid_px = data_if (tsel_bid_px sel) (t_bpx b),
      tv_bid_qty = data_if (tsel_bid_qty sel) (t_bq b),
      tv_valu = data_if (tsel_valu sel) (t_val b),
      tv_min_bid_px = data_if (tsel_min_bid_px sel) (t_min_bpx b),
      tv_max_bid_px = data_if (tsel_max_bid_px sel) (t_max_bpx b),
      tv_min_ask_px = data_if (tsel_min_ask_px sel) (t_min_apx b),
      tv_max_ask_px = data_if (tsel_max_ask_px sel) (t_max_apx b),
      tv_min_bid_ts = data_if (tsel_min_bid_ts sel) (t_min_bts b),
      tv_max_bid_ts = data_if (tsel_max_bid_ts sel) (t_max_bts b),
      tv_min_ask_ts = data_if (tsel_min_ask_ts sel) (t_min_ats b),
      tv_max_ask_ts = data_if (tsel_max_ask_ts sel) (t_max_ats b),
      tv_file = base,
      tv_n = length (t_ts b)\<rparr>"

text \<open>\<open>TopBatchReader::Impl::next\<close>.\<close>

function top_next ::
  "disk \<Rightarrow> (TopSelect, TopBufs) Impl \<Rightarrow> TopColsView \<Rightarrow>
   bool \<times> TopColsView \<times> (TopSelect, TopBufs) Impl" where
  "top_next dsk st out =
     (case ensure_open dsk st of
        Exhausted \<Rightarrow> (False, out, st)
      | OpenFailed st1 \<Rightarrow> top_next dsk st1 out
      | Opened fs st1 \<Rightarrow>
          (case top_next_rg (m_start_ns st1) (m_end_ns st1) (m_sel st1) fs (m_bufs st1) of
             Inl e \<Rightarrow> top_next dsk (read_failed st1 e) out
           | Inr (ok, fs1, b1) \<Rightarrow>
               if \<not> ok then top_next dsk (file_done st1 b1) out
               else if t_ts b1 = []
               then top_next dsk (st1\<lparr>m_fs := Some fs1, m_bufs := b1\<rparr>) out
               else (True, top_view (m_sel st1) b1 (m_cur_file_base st1),
                     st1\<lparr>m_fs := Some fs1, m_bufs := b1\<rparr>)))"
  by pat_completeness auto
termination
proof (relation "measure (\<lambda>(dsk, st, out). next_measure st)")
  show "wf (measure (\<lambda>(dsk, st, out). next_measure st))" by simp
next
  fix dsk :: disk and st st1 :: "(TopSelect, TopBufs) Impl" and out :: TopColsView
  assume "ensure_open dsk st = OpenFailed st1"
  then show "((dsk, st1, out), (dsk, st, out)) \<in> measure (\<lambda>(dsk, st, out). next_measure st)"
    by (simp add: ensure_open_OpenFailed)
next
  fix dsk :: disk and st st1 :: "(TopSelect, TopBufs) Impl" and out :: TopColsView
    and fs e
  assume "ensure_open dsk st = Opened fs st1"
  then show "((dsk, read_failed st1 e, out), (dsk, st, out))
             \<in> measure (\<lambda>(dsk, st, out). next_measure st)"
    by (simp add: ensure_open_Opened_read_failed)
next
  fix dsk :: disk and st st1 :: "(TopSelect, TopBufs) Impl" and out :: TopColsView
    and fs x y b1 ok fs1
  assume "ensure_open dsk st = Opened fs st1"
  then show "((dsk, file_done st1 b1, out), (dsk, st, out))
             \<in> measure (\<lambda>(dsk, st, out). next_measure st)"
    by (simp add: ensure_open_Opened_file_done)
next
  fix dsk :: disk and st st1 :: "(TopSelect, TopBufs) Impl" and out :: TopColsView
    and fs x2 ok y fs1 b1
  assume "top_next_rg (m_start_ns st1) (m_end_ns st1) (m_sel st1) fs (m_bufs st1) = Inr x2"
     and "(ok, y) = x2" and "(fs1, b1) = y" and "\<not> \<not> ok" and "t_ts b1 = []"
  then have "top_next_rg (m_start_ns st1) (m_end_ns st1) (m_sel st1) fs (m_bufs st1)
             = Inr (True, fs1, b1)" by auto
  from top_next_rg_True [OF this] \<open>t_ts b1 = []\<close>
  show "((dsk, st1\<lparr>m_fs := Some fs1, m_bufs := b1\<rparr>, out), (dsk, st, out))
        \<in> measure (\<lambda>(dsk, st, out). next_measure st)"
    by simp
qed

declare top_next.simps [simp del]

record TradeColsView =
  trv_ts :: "int list option"
  trv_px :: "int list option"
  trv_qty :: "int list option"
  trv_tradeId :: "int list option"
  trv_buyerOrderId :: "int list option"
  trv_sellerOrderId :: "int list option"
  trv_tradeTime :: "int list option"
  trv_isMarket :: "int list option"
  trv_eventTime :: "int list option"
  trv_file :: string
  trv_n :: nat

definition trade_view :: "TradeSelect \<Rightarrow> TradeBufs \<Rightarrow> string \<Rightarrow> TradeColsView" where
  "trade_view sel b base =
     \<lparr>trv_ts = data_if (trsel_ts sel) (tr_ts b),
      trv_px = data_if (trsel_px sel) (tr_px b),
      trv_qty = data_if (trsel_qty sel) (tr_qty b),
      trv_tradeId = data_if (trsel_tradeId sel) (tr_tid b),
      trv_buyerOrderId = data_if (trsel_buyerOrderId sel) (tr_boid b),
      trv_sellerOrderId = data_if (trsel_sellerOrderId sel) (tr_soid b),
      trv_tradeTime = data_if (trsel_tradeTime sel) (tr_ttime b),
      trv_isMarket = data_if (trsel_isMarket sel) (tr_isMkt b),
      trv_eventTime = data_if (trsel_eventTime sel) (tr_evt b),
      trv_file = base,
      trv_n = length (tr_ts b)\<rparr>"

text \<open>\<open>TradeBatchReader::Impl::next\<close>.\<close>

function trade_next ::
  "disk \<Rightarrow> (TradeSelect, TradeBufs) Impl \<Rightarrow> TradeColsView \<Rightarrow>
   bool \<times> TradeColsView \<times> (TradeSelect, TradeBufs) Impl" where
  "trade_next dsk st out =
     (case ensure_open dsk st of
        Exhausted \<Rightarrow> (False, out, st)
      | OpenFailed st1 \<Rightarrow> trade_next dsk st1 out
      | Opened fs st1 \<Rightarrow>
          (case trade_next_rg (m_start_ns st1) (m_end_ns st1) (m_sel st1) fs (m_bufs st1) of
             Inl e \<Rightarrow> trade_next dsk (read_failed st1 e) out
           | Inr (ok, fs1, b1) \<Rightarrow>
               if \<not> ok then trade_next dsk (file_done st1 b1) out
               else if tr_ts b1 = []
               then trade_next dsk (st1\<lparr>m_fs := Some fs1, m_bufs := b1\<rparr>) out
               else (True, trade_view (m_sel st1) b1 (m_cur_file_base st1),
                     st1\<lparr>m_fs := Some fs1, m_bufs := b1\<rparr>)))"
  by pat_completeness auto
termination
proof (relation "measure (\<lambda>(dsk, st, out). next_measure st)")
  show "wf (measure (\<lambda>(dsk, st, out). next_measure st))" by simp
next
  fix dsk :: disk and st st1 :: "(TradeSelect, TradeBufs) Impl" and out :: TradeColsView
  assume "ensure_open dsk st = OpenFailed st1"
  then show "((dsk, st1, out), (dsk, st, out)) \<in> measure (\<lambda>(dsk, st, out). next_measure st)"
    by (simp add: ensure_open_OpenFailed)
next
  fix dsk :: disk and st st1 :: "(TradeSelect, TradeBufs) Impl" and out :: TradeColsView
    and fs e
  assume "ensure_open dsk st = Opened fs st1"
  then show "((dsk, read_failed st1 e, out), (dsk, st, out))
             \<in> measure (\<lambda>(dsk, st, out). next_measure st)"
    by (simp add: ensure_open_Opened_read_failed)
next
  fix dsk :: disk and st st1 :: "(TradeSelect, TradeBufs) Impl" and out :: TradeColsView
    and fs x y b1 ok fs1
  assume "ensure_open dsk st = Opened fs st1"
  then show "((dsk, file_done st1 b1, out), (dsk, st, out))
             \<in> measure (\<lambda>(dsk, st, out). next_measure st)"
    by (simp add: ensure_open_Opened_file_done)
next
  fix dsk :: disk and st st1 :: "(TradeSelect, TradeBufs) Impl" and out :: TradeColsView
    and fs x2 ok y fs1 b1
  assume "trade_next_rg (m_start_ns st1) (m_end_ns st1) (m_sel st1) fs (m_bufs st1) = Inr x2"
     and "(ok, y) = x2" and "(fs1, b1) = y" and "\<not> \<not> ok" and "tr_ts b1 = []"
  then have "trade_next_rg (m_start_ns st1) (m_end_ns st1) (m_sel st1) fs (m_bufs st1)
             = Inr (True, fs1, b1)" by auto
  from trade_next_rg_True [OF this] \<open>tr_ts b1 = []\<close>
  show "((dsk, st1\<lparr>m_fs := Some fs1, m_bufs := b1\<rparr>, out), (dsk, st, out))
        \<in> measure (\<lambda>(dsk, st, out). next_measure st)"
    by simp
qed

declare trade_next.simps [simp del]

subsection \<open>Rows of a list column, on the entries\<close>

text \<open>
  Notions used to state what the assemblers do. For the paired assembler,
  \<open>same_list (a, b)\<close> says that the next price entry \<open>a\<close> continues the list and
  the next quantity entry \<open>b\<close> has the same repetition level; \<open>pairs_run ps qs\<close>
  is the number of leading pairs of the two sequences for which this holds.
\<close>

definition same_list :: "Entry \<times> Entry \<Rightarrow> bool" where
  "same_list ab = (e_rep (fst ab) \<noteq> 0 \<and> e_rep (fst ab) = e_rep (snd ab))"

definition pairs_run :: "Entry list \<Rightarrow> Entry list \<Rightarrow> nat" where
  "pairs_run ps qs = length (takeWhile same_list (zip ps qs))"

text \<open>
  The row a list cursor holds next, read off the entries it will deliver:
  \<open>leaf_row\<close> gives the entries of the row's elements and the entries left for
  the following rows, for one leaf; \<open>pair_row\<close> does so for a price and a quantity
  leaf read in lock-step; \<open>side_row\<close> chooses between them as the selection of
  one book side does. \<open>row_count\<close> is the number of elements of such a row.
\<close>

fun leaf_row :: "Entry list \<Rightarrow> Entry list \<times> Entry list" where
  "leaf_row [] = ([], [])"
| "leaf_row (p # rest) =
     (if \<not> e_has_value p \<and> e_rep p = 0 then ([], rest)
      else (p # takeWhile (\<lambda>x. e_rep x \<noteq> 0) rest, dropWhile (\<lambda>x. e_rep x \<noteq> 0) rest))"

fun pair_row ::
  "Entry list \<Rightarrow> Entry list \<Rightarrow> (Entry list \<times> Entry list) \<times> Entry list \<times> Entry list" where
  "pair_row (p # ps) (q # qs) =
     (if (\<not> e_has_value p \<and> e_rep p = 0) \<and> (\<not> e_has_value q \<and> e_rep q = 0)
      then (([], []), ps, qs)
      else ((p # take (pairs_run ps qs) ps, q # take (pairs_run ps qs) qs),
            drop (pairs_run ps qs) ps, drop (pairs_run ps qs) qs))"
| "pair_row ps qs = (([], []), ps, qs)"

definition side_row ::
  "bool \<Rightarrow> bool \<Rightarrow> Entry list \<Rightarrow> Entry list \<Rightarrow>
   (Entry list \<times> Entry list) \<times> Entry list \<times> Entry list" where
  "side_row sel_px sel_qty pxs qys =
     (if sel_px \<and> sel_qty then pair_row pxs qys
      else if sel_px then (case leaf_row pxs of (row, rest) \<Rightarrow> ((row, []), rest, qys))
      else if sel_qty then (case leaf_row qys of (row, rest) \<Rightarrow> (([], row), pxs, rest))
      else (([], []), pxs, qys))"

definition row_count :: "bool \<Rightarrow> Entry list \<times> Entry list \<Rightarrow> nat" where
  "row_count sel_px r = (if sel_px then length (fst r) else length (snd r))"

text \<open>
  The rows of one book side that fall into the window, for a row group whose
  rows have the window flags \<open>ws\<close>: every row is read, the rows with a true flag
  are kept.
\<close>

fun side_rows ::
  "bool \<Rightarrow> bool \<Rightarrow> bool list \<Rightarrow> Entry list \<Rightarrow> Entry list \<Rightarrow> (Entry list \<times> Entry list) list" where
  "side_rows sel_px sel_qty [] pxs qys = []"
| "side_rows sel_px sel_qty (w # ws) pxs qys =
     (case side_row sel_px sel_qty pxs qys of
        (r, pxs', qys') \<Rightarrow> (if w then [r] else []) @ side_rows sel_px sel_qty ws pxs' qys')"

definition entries_opt :: "Int64Cursor option \<Rightarrow> Entry list" where
  "entries_opt c = (case c of None \<Rightarrow> [] | Some x \<Rightarrow> entries x)"

text \<open>
  The values of \<open>n\<close> successive \<open>take\<close> calls on a cursor that delivers \<open>es\<close>
  (a cursor at its end gives \<open>Entry{}\<close>, of value 0).
\<close>

definition taken_values :: "nat \<Rightarrow> Entry list \<Rightarrow> int list" where
  "taken_values n es = map e_value (take n es) @ replicate (n - length es) 0"

definition in_window :: "int \<Rightarrow> int \<Rightarrow> int \<Rightarrow> bool" where
  "in_window s e t = (t \<ge> s \<and> t < e)"

text \<open>The offsets that follow \<open>off\<close> for rows of \<open>ks\<close> elements.\<close>

definition push_offsets :: "u32 list \<Rightarrow> nat list \<Rightarrow> u32 list" where
  "push_offsets off ks = foldl (\<lambda>acc k. acc @ [last acc + of_nat k]) off ks"

text \<open>Every selected list cursor of a row group is engaged.\<close>

definition engaged :: "DeltaSelect \<Rightarrow> DeltaCursors \<Rightarrow> bool" where
  "engaged sel cs =
     ((dsel_ask_px sel \<longrightarrow> c_apx cs \<noteq> None) \<and> (dsel_ask_qty sel \<longrightarrow> c_aqty cs \<noteq> None) \<and>
      (dsel_bid_px sel \<longrightarrow> c_bpx cs \<noteq> None) \<and> (dsel_bid_qty sel \<longrightarrow> c_bqty cs \<noteq> None))"

text \<open>The value of the next \<open>take\<close> on a cursor that delivers \<open>es\<close>.\<close>

definition next_value :: "Entry list \<Rightarrow> int" where
  "next_value es = (case es of [] \<Rightarrow> 0 | x # xs \<Rightarrow> e_value x)"

text \<open>
  The in-window rows of the ask side and of the bid side of a row group of \<open>n\<close>
  rows, read off the entries its cursors deliver; the timestamps of its rows.
\<close>

definition row_timestamps :: "nat \<Rightarrow> DeltaCursors \<Rightarrow> int list" where
  "row_timestamps n cs = taken_values n (entries (c_ts cs))"

definition ask_rows ::
  "int \<Rightarrow> int \<Rightarrow> DeltaSelect \<Rightarrow> nat \<Rightarrow> DeltaCursors \<Rightarrow> (Entry list \<times> Entry list) list" where
  "ask_rows s e sel n cs =
     side_rows (dsel_ask_px sel) (dsel_ask_qty sel)
       (map (in_window s e) (row_timestamps n cs))
       (entries_opt (c_apx cs)) (entries_opt (c_aqty cs))"

definition bid_rows ::
  "int \<Rightarrow> int \<Rightarrow> DeltaSelect \<Rightarrow> nat \<Rightarrow> DeltaCursors \<Rightarrow> (Entry list \<times> Entry list) list" where
  "bid_rows s e sel n cs =
     side_rows (dsel_bid_px sel) (dsel_bid_qty sel)
       (map (in_window s e) (row_timestamps n cs))
       (entries_opt (c_bpx cs)) (entries_opt (c_bqty cs))"

text \<open>
  The columns a row group is asked for besides \<open>ts\<close>, by selection: the names
  in the \<open>if (sel.x) read_and_scatter(name, vec)\<close> statements of the top and
  trade streamers and in the \<open>if (sel.x) { ... find_col_idx(schema, name) ... }\<close>
  blocks of the depth streamer.
\<close>

definition top_wanted :: "TopSelect \<Rightarrow> string list" where
  "top_wanted sel =
     map snd (filter fst
       [(tsel_ask_px sel, ''ask_px''), (tsel_ask_qty sel, ''ask_qty''),
        (tsel_bid_px sel, ''bid_px''), (tsel_bid_qty sel, ''bid_qty''),
        (tsel_valu sel, ''valu''),
        (tsel_min_bid_px sel, ''min_bid_px''), (tsel_max_bid_px sel, ''max_bid_px''),
        (tsel_min_ask_px sel, ''min_ask_px''), (tsel_max_ask_px sel, ''max_ask_px''),
        (tsel_min_bid_ts sel, ''min_bid_ts''), (tsel_max_bid_ts sel, ''max_bid_ts''),
        (tsel_min_ask_ts sel, ''min_ask_ts''), (tsel_max_ask_ts sel, ''max_ask_ts'')])"

definition trade_wanted :: "TradeSelect \<Rightarrow> string list" where
  "trade_wanted sel =
     map snd (filter fst
       [(trsel_px sel, ''px''), (trsel_qty sel, ''qty''), (trsel_tradeId sel, ''tradeId''),
        (trsel_buyerOrderId sel, ''buyerOrderId''),
        (trsel_sellerOrderId sel, ''sellerOrderId''),
        (trsel_tradeTime sel, ''tradeTime''), (trsel_isMarket sel, ''isMarket''),
        (trsel_eventTime sel, ''eventTime'')])"

definition delta_wanted :: "DeltaSelect \<Rightarrow> string list" where
  "delta_wanted sel =
     map snd (filter fst
       [(dsel_firstId sel, ''firstId''), (dsel_lastId sel, ''lastId''),
        (dsel_eventTime sel, ''eventTime''),
        (dsel_ask_px sel, ''ask.list.element.px''),
        (dsel_ask_qty sel, ''ask.list.element.qty''),
        (dsel_bid_px sel, ''bid.list.element.px''),
        (dsel_bid_qty sel, ''bid.list.element.qty'')])"

subsection \<open>Date helpers and file discovery\<close>

text \<open>
  C++ integer division truncates towards zero and \<open>%\<close> takes the sign of the
  dividend.
\<close>

definition cdiv :: "int \<Rightarrow> int \<Rightarrow> int" where
  "cdiv a b = sgn a * sgn b * (\<bar>a\<bar> div \<bar>b\<bar>)"

definition cmod :: "int \<Rightarrow> int \<Rightarrow> int" where
  "cmod a b = a - b * cdiv a b"

text \<open>
  The C library's \<open>gmtime_r\<close> and \<open>timegm\<close>, for the fields the program reads and
  writes (year, month, day; the time of day is zero in every call of \<open>timegm\<close>):
  the proleptic Gregorian calendar on the days since 1970-01-01, with the days
  of a negative time counted downwards. They are not part of the program.
\<close>

record tm =
  tm_year :: int
  tm_mon :: int
  tm_mday :: int

definition gmtime_r :: "int \<Rightarrow> tm" where
  "gmtime_r sec =
     (let z = sec div 86400 + 719468;
          era = z div 146097;
          doe = z - era * 146097;
          yoe = (doe - doe div 1460 + doe div 36524 - doe div 146096) div 365;
          doy = doe - (365 * yoe + yoe div 4 - yoe div 100);
          mp = (5 * doy + 2) div 153;
          d = doy - (153 * mp + 2) div 5 + 1;
          m = (if mp < 10 then mp + 3 else mp - 9);
          y = yoe + era * 400 + (if m \<le> 2 then 1 else 0)
      in \<lparr>tm_year = y - 1900, tm_mon = m - 1, tm_mday = d\<rparr>)"

definition timegm :: "tm \<Rightarrow> int" where
  "timegm t =
     (let m = tm_mon t + 1;
          y = tm_year t + 1900 - (if m \<le> 2 then 1 else 0);
          era = y div 400;
          yoe = y - era * 400;
          mp = (if m > 2 then m - 3 else m + 9);
          doy = (153 * mp + 2) div 5 + tm_mday t - 1;
          doe = yoe * 365 + yoe div 4 - yoe div 100 + doy
      in (era * 146097 + doe - 719468) * 86400)"

record YMD =
  year :: int
  month :: int
  day :: int

definition ymd_utc_from_ns :: "int \<Rightarrow> YMD" where
  "ymd_utc_from_ns ns =
     (let t = gmtime_r (cdiv ns 1000000000)
      in \<lparr>year = tm_year t + 1900, month = tm_mon t + 1, day = tm_mday t\<rparr>)"

definition floor_day_ns :: "int \<Rightarrow> int" where
  "floor_day_ns ns =
     (let sec = cdiv ns 1000000000;
          day_sec = sec - cmod sec 86400
      in day_sec * 1000000000)"

definition ymd_utc_start_ns :: "int \<Rightarrow> int \<Rightarrow> int \<Rightarrow> int" where
  "ymd_utc_start_ns Y M D =
     (let s = timegm \<lparr>tm_year = Y - 1900, tm_mon = M - 1, tm_mday = D\<rparr>
      in if s = - 1 then 0 else s * 1000000000)"

text \<open>\<open>tolower\<close> in the C locale, and \<open>to_lower\<close> on a string.\<close>

definition tolower :: "char \<Rightarrow> char" where
  "tolower c =
     (if 65 \<le> (of_char c :: nat) \<and> (of_char c :: nat) \<le> 90
      then char_of ((of_char c :: nat) + 32) else c)"

definition to_lower :: "string \<Rightarrow> string" where
  "to_lower s = map tolower s"

definition norm_market :: "string option \<Rightarrow> string option" where
  "norm_market m =
     (case m of
        None \<Rightarrow> None
      | Some m0 \<Rightarrow>
          (let s = to_lower m0;
               s1 = (if s = ''futures'' then ''fut'' else s);
               s2 = (if s1 = ''future'' then ''fut'' else s1)
           in if s2 = ''spot'' \<or> s2 = ''fut'' then Some s2 else None))"

text \<open>\<open>ostream << int\<close>: decimal digits without padding, a minus sign when negative.\<close>

function dec_nat :: "nat \<Rightarrow> string" where
  "dec_nat n =
     (if n < 10 then [char_of (48 + n)]
      else dec_nat (n div 10) @ [char_of (48 + n mod 10)])"
  by pat_completeness auto
termination
  by (relation "measure (\<lambda>n. n)") auto

declare dec_nat.simps [simp del]

definition show_int :: "int \<Rightarrow> string" where
  "show_int i = (if i < 0 then CHR ''-'' # dec_nat (nat (- i)) else dec_nat (nat i))"

definition day_ns :: int where
  "day_ns = 86400000000000"

text \<open>
  The path of the file of one market and day:
  \<open><root>/<kind>_<market>/<SYMB>/<Y>/<M>/bn_<kind>_<market>_<SYMB>_<Y>_<M>_<D>.parquet\<close>
\<close>

definition day_path :: "string \<Rightarrow> string \<Rightarrow> string \<Rightarrow> string \<Rightarrow> YMD \<Rightarrow> string" where
  "day_path root symb base_type mkt ymd =
     (root @ ''/'' @ base_type @ ''_'' @ mkt @ ''/'' @ symb @ ''/'' @
      show_int (year ymd) @ ''/'' @ show_int (month ymd) @ ''/'') @
     (''bn_'' @ base_type @ ''_'' @ mkt @ ''_'' @ symb @ ''_'' @
      show_int (year ymd) @ ''_'' @ show_int (month ymd) @ ''_'' @ show_int (day ymd) @
      ''.parquet'')"

text \<open>
  The loop \<open>while (cur <= end_floor)\<close> for one market; \<open>ex\<close> is \<open>fs::exists\<close>.
\<close>

function day_loop ::
  "(string \<Rightarrow> bool) \<Rightarrow> string \<Rightarrow> string \<Rightarrow> string \<Rightarrow> string \<Rightarrow> int \<Rightarrow> int \<Rightarrow>
   Candidate list \<Rightarrow> Candidate list" where
  "day_loop ex root symb base_type mkt cur end_floor out =
     (if cur \<le> end_floor
      then (let ymd = ymd_utc_from_ns cur;
                file_start = ymd_utc_start_ns (year ymd) (month ymd) (day ymd);
                file_end = file_start + day_ns;
                p = day_path root symb base_type mkt ymd;
                out1 = (if ex p
                        then out @ [\<lparr>path = p, file_start_ns = file_start,
                                      file_end_ns = file_end\<rparr>]
                        else out)
            in day_loop ex root symb base_type mkt (cur + day_ns) end_floor out1)
      else out)"
  by pat_completeness auto
termination
  by (relation "measure (\<lambda>(ex, root, symb, base_type, mkt, cur, end_floor, out).
                           nat (end_floor - cur + 1))")
     (auto simp: day_ns_def)

declare day_loop.simps [simp del]

definition market_error :: string where
  "market_error =
     ''market must be '' @ [char_of (39 :: nat)] @ ''fut'' @ [char_of (39 :: nat)] @
     '' or '' @ [char_of (39 :: nat)] @ ''spot'' @ [char_of (39 :: nat)]"

text \<open>
  \<open>candidate_files_strict\<close>. The \<open>sampling\<close> argument is read by the debug
  output only.
\<close>

definition candidate_files_strict ::
  "(string \<Rightarrow> bool) \<Rightarrow> string \<Rightarrow> string \<Rightarrow> string \<Rightarrow> string option \<Rightarrow> int \<Rightarrow> int \<Rightarrow>
   string option \<Rightarrow> error + Candidate list" where
  "candidate_files_strict ex root symb base_type market start_ns end_ns sampling =
     (if start_ns \<ge> end_ns then Inr []
      else
        bnd (case market of
               Some m \<Rightarrow>
                 (case norm_market market of
                    None \<Rightarrow> Inl (RuntimeError market_error)
                  | Some nm \<Rightarrow> Inr [nm])
             | None \<Rightarrow> Inr [''fut'', ''spot''])
          (\<lambda>markets.
             let end_floor = floor_day_ns (end_ns - 1)
             in Inr (foldl (\<lambda>out mkt.
                              day_loop ex root symb base_type mkt
                                (floor_day_ns start_ns) end_floor out)
                       [] markets)))"

text \<open>
  The candidate of the day that starts \<open>d\<close> days after 1970-01-01, as one round
  of the loop builds it, and the list of the days \<open>lo, ..., hi\<close>.
\<close>

definition day_candidate :: "string \<Rightarrow> string \<Rightarrow> string \<Rightarrow> string \<Rightarrow> int \<Rightarrow> Candidate" where
  "day_candidate root symb base_type mkt d =
     (let ymd = ymd_utc_from_ns (d * day_ns);
          file_start = ymd_utc_start_ns (year ymd) (month ymd) (day ymd)
      in \<lparr>path = day_path root symb base_type mkt ymd,
          file_start_ns = file_start, file_end_ns = file_start + day_ns\<rparr>)"

definition days_of_window :: "int \<Rightarrow> int \<Rightarrow> int list" where
  "days_of_window s e = [s div day_ns ..(e - 1) div day_ns]"

subsection \<open>ShardedDB\<close>

record ShardedDB =
  root_dir :: string
  sampling_opt :: "string option"

definition empty_top_bufs :: TopBufs where
  "empty_top_bufs =
     \<lparr>t_ts = [], t_apx = [], t_aq = [], t_bpx = [], t_bq = [], t_val = [],
      t_min_bpx = [], t_max_bpx = [], t_min_apx = [], t_max_apx = [],
      t_min_bts = [], t_max_bts = [], t_min_ats = [], t_max_ats = []\<rparr>"

definition empty_trade_bufs :: TradeBufs where
  "empty_trade_bufs =
     \<lparr>tr_ts = [], tr_px = [], tr_qty = [], tr_tid = [], tr_boid = [], tr_soid = [],
      tr_ttime = [], tr_isMkt = [], tr_evt = []\<rparr>"

definition empty_delta_bufs :: DeltaBufs where
  "empty_delta_bufs =
     \<lparr>d_ts = [], d_fid = [], d_lid = [], d_evt = [], d_ask_off = [], d_ask_px = [],
      d_ask_qty = [], d_bid_off = [], d_bid_px = [], d_bid_qty = []\<rparr>"

text \<open>
  The market-aware \<open>get_top_cols\<close>, \<open>get_trade_cols\<close> and \<open>get_depth_cols\<close>; the
  overloads without a market pass \<open>nullopt\<close>.
\<close>

definition get_top_cols ::
  "(string \<Rightarrow> bool) \<Rightarrow> ShardedDB \<Rightarrow> int \<Rightarrow> int \<Rightarrow> string \<Rightarrow> string option \<Rightarrow> TopSelect \<Rightarrow>
   error + (TopSelect, TopBufs) Impl" where
  "get_top_cols ex db s e symb market sel =
     bnd (candidate_files_strict ex (root_dir db) symb ''top'' market s e (sampling_opt db))
       (\<lambda>files. Inr (Impl_new files s e sel empty_top_bufs))"

definition get_trade_cols ::
  "(string \<Rightarrow> bool) \<Rightarrow> ShardedDB \<Rightarrow> int \<Rightarrow> int \<Rightarrow> string \<Rightarrow> string option \<Rightarrow> TradeSelect \<Rightarrow>
   error + (TradeSelect, TradeBufs) Impl" where
  "get_trade_cols ex db s e symb market sel =
     bnd (candidate_files_strict ex (root_dir db) symb ''trade'' market s e None)
       (\<lambda>files. Inr (Impl_new files s e sel empty_trade_bufs))"

definition get_depth_cols ::
  "(string \<Rightarrow> bool) \<Rightarrow> ShardedDB \<Rightarrow> int \<Rightarrow> int \<Rightarrow> string \<Rightarrow> string option \<Rightarrow> DeltaSelect \<Rightarrow>
   error + (DeltaSelect, DeltaBufs) Impl" where
  "get_depth_cols ex db s e symb market sel =
     bnd (candidate_files_strict ex (root_dir db) symb ''depth'' market s e None)
       (\<lambda>files. Inr (Impl_new files s e sel empty_delta_bufs))"

subsection \<open>Example columns and files\<close>

text \<open>
  Entries of a list leaf under one level of optional-list nesting (maximum
  definition level 2, maximum repetition level 1): an element with a value, and
  the single entry of an empty list.
\<close>

definition elem :: "int \<Rightarrow> int \<Rightarrow> Entry" where
  "elem rp v = \<lparr>e_def = 2, e_rep = rp, e_has_value = True, e_value = v, e_valid = True\<rparr>"

definition empty_list_entry :: Entry where
  "empty_list_entry =
     \<lparr>e_def = 1, e_rep = 0, e_has_value = False, e_value = 0, e_valid = True\<rparr>"

text \<open>A leaf holding the lists \<open>[10, 20]\<close>, \<open>[]\<close>, \<open>[30]\<close>, and one holding \<open>[]\<close>, \<open>[30]\<close>.\<close>

definition demo_leaf :: Int64Cursor where
  "demo_leaf = fresh_cursor [Batch [(2, 0), (2, 1), (1, 0), (2, 0)] [10, 20, 30]] 2 1"

definition demo_leaf2 :: Int64Cursor where
  "demo_leaf2 = fresh_cursor [Batch [(1, 0), (2, 0)] [30]] 2 1"

text \<open>
  A price leaf and a quantity leaf whose repetition levels disagree at the third
  entry: the price leaf continues its first list there, the quantity leaf starts
  a new one.
\<close>

definition demo_px :: Int64Cursor where
  "demo_px = fresh_cursor [Batch [(2, 0), (2, 1), (2, 1), (2, 0)] [10, 20, 30, 40]] 2 1"

definition demo_qty :: Int64Cursor where
  "demo_qty = fresh_cursor [Batch [(2, 0), (2, 1), (2, 0), (2, 0)] [1, 2, 3, 4]] 2 1"

text \<open>
  A depth dataset under \<open>/data\<close> for the symbol BTCUSDT on the spot market, from
  2025-09-03 (which starts at 1756857600000000000 ns) to 2025-09-07:
  a file of one row group of three rows whose ask lists have 2, 0 and 1
  elements; a file whose ask price column has fewer values than its levels
  announce; a file that cannot be opened; a file without a \<open>ts\<close> column; and a
  file of two row groups, with rows at 01:00 and at 07:00.
\<close>

definition required_col :: "string \<Rightarrow> ColumnDescriptor" where
  "required_col name =
     \<lparr>col_path = name, col_type = INT64, max_definition_level = 0, max_repetition_level = 0\<rparr>"

definition list_col :: "string \<Rightarrow> ColumnDescriptor" where
  "list_col name =
     \<lparr>col_path = name, col_type = INT64, max_definition_level = 2, max_repetition_level = 1\<rparr>"

definition depth_schema :: SchemaDescriptor where
  "depth_schema =
     [required_col ''ts'', required_col ''firstId'', required_col ''lastId'',
      required_col ''eventTime'',
      list_col ''ask.list.element.px'', list_col ''ask.list.element.qty'',
      list_col ''bid.list.element.px'', list_col ''bid.list.element.qty'']"

definition required_values :: "int list \<Rightarrow> column_reader" where
  "required_values vs = [Batch (map (\<lambda>v. (0, 0)) vs) vs]"

definition depth_rg_day3 :: RowGroup where
  "depth_rg_day3 =
     \<lparr>num_rows = 3,
      columns =
        [required_values [1756857600000000000, 1756857601000000000, 1756943999999999999],
         required_values [1, 3, 5],
         required_values [2, 4, 6],
         required_values [1756857600000000001, 1756857601000000001, 1756944000000000000],
         [Batch [(2, 0), (2, 1), (1, 0), (2, 0)] [101, 102, 103]],
         [Batch [(2, 0), (2, 1), (1, 0), (2, 0)] [5, 6, 7]],
         [Batch [(2, 0), (2, 0), (1, 0)] [99, 98]],
         [Batch [(2, 0), (2, 0), (1, 0)] [1, 2]]]\<rparr>"

definition depth_rg_short_values :: RowGroup where
  "depth_rg_short_values =
     \<lparr>num_rows = 2,
      columns =
        [required_values [1756944000000000000, 1756944001000000000],
         required_values [7, 9],
         required_values [8, 10],
         required_values [1756944000000000001, 1756944001000000001],
         [Batch [(2, 0), (2, 1), (2, 0)] [201]],
         [Batch [(2, 0), (2, 1), (2, 0)] [1, 1, 1]],
         [Batch [(2, 0), (2, 0)] [199, 198]],
         [Batch [(2, 0), (2, 0)] [1, 2]]]\<rparr>"

definition depth_rg_at :: "int \<Rightarrow> RowGroup" where
  "depth_rg_at t =
     \<lparr>num_rows = 1,
      columns =
        [required_values [t], required_values [11], required_values [12],
         required_values [t + 1],
         [Batch [(2, 0)] [301]], [Batch [(2, 0)] [3]],
         [Batch [(2, 0)] [299]], [Batch [(2, 0)] [4]]]\<rparr>"

definition depth_path :: "int \<Rightarrow> string" where
  "depth_path d =
     ''/data/depth_spot/BTCUSDT/2025/9/bn_depth_spot_BTCUSDT_2025_9_'' @ show_int d @
     ''.parquet''"

definition depth_file_day6 :: ParquetFile where
  "depth_file_day6 = \<lparr>schema = tl depth_schema, row_groups = [depth_rg_day3]\<rparr>"

definition depth_file_day7 :: ParquetFile where
  "depth_file_day7 =
     \<lparr>schema = depth_schema,
      row_groups = [depth_rg_at 1757206800000000000, depth_rg_at 1757228400000000000]\<rparr>"

definition depth_disk :: disk where
  "depth_disk p =
     (if p = depth_path 3 then Inr \<lparr>schema = depth_schema, row_groups = [depth_rg_day3]\<rparr>
      else if p = depth_path 4
      then Inr \<lparr>schema = depth_schema, row_groups = [depth_rg_short_values]\<rparr>
      else if p = depth_path 5 then Inl (ParquetError ''Parquet magic bytes not found'')
      else if p = depth_path 6 then Inr depth_file_day6
      else if p = depth_path 7 then Inr depth_file_day7
      else Inl (ParquetError ''Failed to open local file''))"

definition depth_exists :: "string \<Rightarrow> bool" where
  "depth_exists p = (p \<in> set (map depth_path [3, 4, 5, 6, 7]))"

definition data_db :: ShardedDB where
  "data_db = \<lparr>root_dir = ''/data'', sampling_opt = None\<rparr>"

definition select_all_depth :: DeltaSelect where
  "select_all_depth =
     \<lparr>dsel_ts = True, dsel_firstId = True, dsel_lastId = True, dsel_eventTime = True,
      dsel_ask_px = True, dsel_ask_qty = True, dsel_bid_px = True, dsel_bid_qty = True\<rparr>"

definition no_depth_view :: DeltaColsView where
  "no_depth_view =
     \<lparr>dv_ts = None, dv_firstId = None, dv_lastId = None, dv_eventTime = None,
      dv_ask_off = None, dv_ask_px = None, dv_ask_qty = None,
      dv_bid_off = None, dv_bid_px = None, dv_bid_qty = None,
      dv_file = [], dv_n = 0\<rparr>"

text \<open>A file system on which every path exists.\<close>

definition every_file_present :: "string \<Rightarrow> bool" where
  "every_file_present p = True"

text \<open>The reader for the whole of 2025-09-03, as \<open>get_depth_cols\<close> builds it.\<close>

definition depth_day3_reader :: "(DeltaSelect, DeltaBufs) Impl" where
  "depth_day3_reader =
     Impl_new [\<lparr>path = depth_path 3, file_start_ns = 1756857600000000000,
                 file_end_ns = 1756944000000000000\<rparr>]
       1756857600000000000 1756944000000000000 select_all_depth empty_delta_bufs"

text \<open>
  A top-of-book dataset: on 2025-09-03 a file of two row groups, with rows at
  0, 10 and 20 ns and at 30 and 40 ns after midnight; on 2025-09-04 a file
  without a \<open>ts\<close> column; on 2025-09-05 a file of one row.
\<close>

definition top_schema :: SchemaDescriptor where
  "top_schema =
     [required_col ''ts'', required_col ''ask_px'', required_col ''ask_qty'',
      required_col ''bid_px'', required_col ''bid_qty'', required_col ''valu'']"

definition top_rg :: "int list \<Rightarrow> int list \<Rightarrow> RowGroup" where
  "top_rg ts px =
     \<lparr>num_rows = length ts,
      columns = [required_values ts, required_values px, required_values (map (\<lambda>p. 1) px),
                 required_values (map (\<lambda>p. p - 1) px), required_values (map (\<lambda>p. 2) px),
                 required_values (map (\<lambda>p. 0) px)]\<rparr>"

definition top_path :: "int \<Rightarrow> string" where
  "top_path d =
     ''/data/top_spot/BTCUSDT/2025/9/bn_top_spot_BTCUSDT_2025_9_'' @ show_int d @ ''.parquet''"

definition top_file_day3 :: ParquetFile where
  "top_file_day3 =
     \<lparr>schema = top_schema,
      row_groups =
        [top_rg [1756857600000000000, 1756857600000000010, 1756857600000000020]
           [101, 102, 103],
         top_rg [1756857600000000030, 1756857600000000040] [104, 105]]\<rparr>"

definition top_file_day4 :: ParquetFile where
  "top_file_day4 =
     \<lparr>schema = tl top_schema, row_groups = [top_rg [1756944000000000001] [106]]\<rparr>"

definition top_disk :: disk where
  "top_disk p =
     (if p = top_path 3 then Inr top_file_day3
      else if p = top_path 4 then Inr top_file_day4
      else if p = top_path 5
      then Inr \<lparr>schema = top_schema,
                row_groups = [top_rg [1757030400000000005] [107]]\<rparr>
      else Inl (ParquetError ''Failed to open local file''))"

definition top_exists :: "string \<Rightarrow> bool" where
  "top_exists p = (p \<in> set (map top_path [3, 4, 5]))"

definition select_default_top :: TopSelect where
  "select_default_top =
     \<lparr>tsel_ts = True, tsel_ask_px = True, tsel_ask_qty = True, tsel_bid_px = True,
      tsel_bid_qty = True, tsel_valu = True,
      tsel_min_bid_px = False, tsel_max_bid_px = False, tsel_min_ask_px = False,
      tsel_max_ask_px = False, tsel_min_bid_ts = False, tsel_max_bid_ts = False,
      tsel_min_ask_ts = False, tsel_max_ask_ts = False\<rparr>"

definition no_top_view :: TopColsView where
  "no_top_view =
     \<lparr>tv_ts = None, tv_ask_px = None, tv_ask_qty = None, tv_bid_px = None,
      tv_bid_qty = None, tv_valu = None, tv_min_bid_px = None, tv_max_bid_px = None,
      tv_min_ask_px = None, tv_max_ask_px = None, tv_min_bid_ts = None,
      tv_max_bid_ts = None, tv_min_ask_ts = None, tv_max_ask_ts = None,
      tv_file = [], tv_n = 0\<rparr>"

text \<open>
  A trade dataset: a file on 2025-09-03, with rows at 1, 2 and 3 ns after
  midnight, and a file on 2025-09-04 without a \<open>ts\<close> column.
\<close>

definition trade_schema :: SchemaDescriptor where
  "trade_schema =
     [required_col ''ts'', required_col ''px'', required_col ''qty'',
      required_col ''tradeId'', required_col ''buyerOrderId'', required_col ''sellerOrderId'',
      required_col ''tradeTime'',
      \<lparr>col_path = ''isMarket'', col_type = BOOLEAN,
        max_definition_level = 0, max_repetition_level = 0\<rparr>,
      required_col ''eventTime'']"

definition trade_path :: "int \<Rightarrow> string" where
  "trade_path d =
     ''/data/trade_spot/BTCUSDT/2025/9/bn_trade_spot_BTCUSDT_2025_9_'' @ show_int d @
     ''.parquet''"

definition trade_file_day3 :: ParquetFile where
  "trade_file_day3 =
     \<lparr>schema = trade_schema,
      row_groups =
        [\<lparr>num_rows = 3,
          columns =
            [required_values [1756857600000000001, 1756857600000000002,
                              1756857600000000003],
             required_values [500, 501, 502], required_values [1, 2, 3],
             required_values [71, 72, 73], required_values [81, 82, 83],
             required_values [91, 92, 93],
             required_values [1756857600000000001, 1756857600000000002,
                              1756857600000000003],
             required_values [1, 0, 1],
             required_values [1756857600000000004, 1756857600000000005,
                              1756857600000000006]]\<rparr>]\<rparr>"

definition trade_file_day4 :: ParquetFile where
  "trade_file_day4 =
     \<lparr>schema = tl trade_schema, row_groups = row_groups trade_file_day3\<rparr>"

definition trade_disk :: disk where
  "trade_disk p =
     (if p = trade_path 3 then Inr trade_file_day3
      else if p = trade_path 4 then Inr trade_file_day4
      else Inl (ParquetError ''Failed to open local file''))"

definition trade_exists :: "string \<Rightarrow> bool" where
  "trade_exists p = (p \<in> set (map trade_path [3, 4]))"

definition select_all_trade :: TradeSelect where
  "select_all_trade =
     \<lparr>trsel_ts = True, trsel_px = True, trsel_qty = True, trsel_tradeId = True,
      trsel_buyerOrderId = True, trsel_sellerOrderId = True, trsel_tradeTime = True,
      trsel_isMarket = True, trsel_eventTime = True\<rparr>"

definition no_trade_view :: TradeColsView where
  "no_trade_view =
     \<lparr>trv_ts = None, trv_px = None, trv_qty = None, trv_tradeId = None,
      trv_buyerOrderId = None, trv_sellerOrderId = None, trv_tradeTime = None,
      trv_isMarket = None, trv_eventTime = None, trv_file = [], trv_n = 0\<rparr>"

text \<open>Readers over single files of the three datasets, as the facade builds them.\<close>

definition top_day3_reader :: "(TopSelect, TopBufs) Impl" where
  "top_day3_reader =
     Impl_new [\<lparr>path = top_path 3, file_start_ns = 1756857600000000000,
                 file_end_ns = 1756944000000000000\<rparr>]
       1756857600000000000 1756857600000000020 select_default_top empty_top_bufs"

definition trade_day3_reader :: "(TradeSelect, TradeBufs) Impl" where
  "trade_day3_reader =
     Impl_new [\<lparr>path = trade_path 3, file_start_ns = 1756857600000000000,
                 file_end_ns = 1756944000000000000\<rparr>]
       1756857600000000002 1756857600000000003 select_all_trade empty_trade_bufs"

definition depth_first_second_reader :: "(DeltaSelect, DeltaBufs) Impl" where
  "depth_first_second_reader =
     Impl_new [\<lparr>path = depth_path 3, file_start_ns = 1756857600000000000,
                 file_end_ns = 1756944000000000000\<rparr>]
       1756857600000000000 1756857601000000000 select_all_depth empty_delta_bufs"

text \<open>A depth reader for 2025-09-07 from 06:00 to midnight.\<close>

definition depth_day7_reader :: "(DeltaSelect, DeltaBufs) Impl" where
  "depth_day7_reader =
     Impl_new [\<lparr>path = depth_path 7, file_start_ns = 1757203200000000000,
                 file_end_ns = 1757289600000000000\<rparr>]
       1757224800000000000 1757289600000000000 select_all_depth empty_delta_bufs"

text \<open>
  Readers over several days of September 2025. The depth reader is the one
  \<open>get_depth_cols\<close> builds for 2025-09-03 to 2025-09-07. The top and trade readers
  start at a file without a \<open>ts\<close> column, go on to a file that has been removed
  since the candidates were listed, and end at a good file.
\<close>

definition sept_ns :: "int \<Rightarrow> int" where
  "sept_ns d = 1756857600000000000 + (d - 3) * 86400000000000"

definition depth_candidate :: "int \<Rightarrow> Candidate" where
  "depth_candidate d =
     \<lparr>path = depth_path d, file_start_ns = sept_ns d, file_end_ns = sept_ns (d + 1)\<rparr>"

definition top_candidate :: "int \<Rightarrow> Candidate" where
  "top_candidate d =
     \<lparr>path = top_path d, file_start_ns = sept_ns d, file_end_ns = sept_ns (d + 1)\<rparr>"

definition trade_candidate :: "int \<Rightarrow> Candidate" where
  "trade_candidate d =
     \<lparr>path = trade_path d, file_start_ns = sept_ns d, file_end_ns = sept_ns (d + 1)\<rparr>"

definition depth_week_reader :: "(DeltaSelect, DeltaBufs) Impl" where
  "depth_week_reader =
     Impl_new (map depth_candidate [3, 4, 5, 6, 7]) (sept_ns 3) (sept_ns 8)
       select_all_depth empty_delta_bufs"




text \<open>
  The top reader \<open>get_top_cols\<close> builds for 2025-09-04 and 2025-09-05, and a top
  file that has a \<open>ts\<close> column and nothing else.
\<close>

definition top_two_day_reader :: "(TopSelect, TopBufs) Impl" where
  "top_two_day_reader =
     Impl_new (map top_candidate [4, 5]) (sept_ns 4) (sept_ns 6)
       select_default_top empty_top_bufs"

definition top_file_ts_only :: ParquetFile where
  "top_file_ts_only =
     \<lparr>schema = [required_col ''ts''],
      row_groups = [\<lparr>num_rows = 1, columns = [required_values [5]]\<rparr>]\<rparr>"

text \<open>
  A list leaf of one row of \<open>2^32\<close> elements, each of value 7, as 65536 calls of
  \<open>ReadBatch\<close> deliver it, 65536 levels at a time; a depth file of one row at
  midnight of 2025-09-03 whose ask lists are this leaf; and the reader for the
  timestamps and ask prices of that day.
\<close>

definition big_list_col :: column_reader where
  "big_list_col =
     Batch ((2, 0) # replicate 65535 (2, 1)) (replicate 65536 7) #
     replicate 65535 (Batch (replicate 65536 (2, 1)) (replicate 65536 7))"

definition big_leaf :: Int64Cursor where
  "big_leaf = fresh_cursor big_list_col 2 1"

definition big_rg :: RowGroup where
  "big_rg =
     \<lparr>num_rows = 1,
      columns =
        [required_values [1756857600000000000], required_values [1], required_values [2],
         required_values [1756857600000000001],
         big_list_col, big_list_col,
         [Batch [(2, 0)] [99]], [Batch [(2, 0)] [1]]]\<rparr>"

definition big_file :: ParquetFile where
  "big_file = \<lparr>schema = depth_schema, row_groups = [big_rg]\<rparr>"

definition big_disk :: disk where
  "big_disk p =
     (if p = depth_path 3 then Inr big_file
      else Inl (ParquetError ''Failed to open local file''))"

definition select_ask_px :: DeltaSelect where
  "select_ask_px =
     \<lparr>dsel_ts = True, dsel_firstId = False, dsel_lastId = False, dsel_eventTime = False,
      dsel_ask_px = True, dsel_ask_qty = False, dsel_bid_px = False, dsel_bid_qty = False\<rparr>"

definition big_reader :: "(DeltaSelect, DeltaBufs) Impl" where
  "big_reader =
     Impl_new [depth_candidate 3] (sept_ns 3) (sept_ns 4) select_ask_px empty_delta_bufs"

text \<open>The cursors of that row group under this selection, and the vectors of its batch.\<close>

definition big_cursors :: DeltaCursors where
  "big_cursors =
     \<lparr>c_ts = fresh_cursor (required_values [1756857600000000000]) 0 0,
      c_fid = None, c_lid = None, c_evt = None,
      c_apx = Some big_leaf, c_aqty = None, c_bpx = None, c_bqty = None\<rparr>"

definition big_bufs :: DeltaBufs where
  "big_bufs =
     \<lparr>d_ts = [1756857600000000000], d_fid = [], d_lid = [], d_evt = [],
      d_ask_off = [0, 0], d_ask_px = replicate 4294967296 7, d_ask_qty = [],
      d_bid_off = [], d_bid_px = [], d_bid_qty = []\<rparr>"

section \<open>Properties\<close>

lemma ensure_pending_True_entries:
  assumes "ensure_pending c = Inr (True, c1)"
  shows "entries c = pending c1 # entries (c1\<lparr>has_pending := False\<rparr>)"
    and "entries c1 = entries c"
proof -
  show a: "entries c = pending c1 # entries (c1\<lparr>has_pending := False\<rparr>)"
    using assms by (subst entries.simps) simp
  from ensure_pending_remaining [OF assms] have "has_pending c1" by simp
  then have "ensure_pending c1 = Inr (True, c1)" by (rule ensure_pending_has_pending)
  then have "entries c1 = pending c1 # entries (c1\<lparr>has_pending := False\<rparr>)"
    by (subst entries.simps) simp
  with a show "entries c1 = entries c" by simp
qed

lemma ensure_pending_False_entries:
  assumes "ensure_pending c = Inr (False, c1)"
  shows "entries c = []" and "entries c1 = []"
proof -
  show "entries c = []" using assms by (subst entries.simps) simp
  from ensure_pending_False [OF assms] have "ensure_pending c1 = Inr (False, c1)"
    by (simp add: ensure_pending_def)
  then show "entries c1 = []" by (subst entries.simps) simp
qed

lemma peek_Some_entries:
  assumes "peek c = Inr (Some p, c1)"
  shows "entries c = p # entries (c1\<lparr>has_pending := False\<rparr>)"
    and "entries c1 = entries c" and "has_pending c1" and "pending c1 = p"
proof -
  from assms have ep: "ensure_pending c = Inr (True, c1)" and p: "pending c1 = p"
    by (auto simp: peek_def split: sum.splits prod.splits bool.splits)
  from ensure_pending_True_entries [OF ep] p
  show "entries c = p # entries (c1\<lparr>has_pending := False\<rparr>)" "entries c1 = entries c"
    by simp_all
  from ensure_pending_remaining [OF ep] show "has_pending c1" by simp
  show "pending c1 = p" by (rule p)
qed

lemma peek_None_entries:
  assumes "peek c = Inr (None, c1)"
  shows "entries c = []" and "entries c1 = []"
proof -
  from assms have ep: "ensure_pending c = Inr (False, c1)"
    by (auto simp: peek_def split: sum.splits prod.splits bool.splits)
  from ensure_pending_False_entries [OF ep] show "entries c = []" "entries c1 = []"
    by simp_all
qed

lemma take_entry_entries:
  assumes "take_entry c = Inr (e, c1)"
  shows "entries c = e # entries c1 \<or> (entries c = [] \<and> entries c1 = [] \<and> e = Entry0)"
proof (cases "ensure_pending c")
  case (Inl x)
  with assms show ?thesis by (simp add: take_entry_def)
next
  case (Inr q)
  obtain b c2 where q: "q = (b, c2)" by (cases q)
  show ?thesis
  proof (cases b)
    case True
    with Inr q have ep: "ensure_pending c = Inr (True, c2)" by simp
    with assms have "e = pending c2" "c1 = c2\<lparr>has_pending := False\<rparr>"
      by (simp_all add: take_entry_def)
    with ensure_pending_True_entries(1) [OF ep] show ?thesis by simp
  next
    case False
    with Inr q have ep: "ensure_pending c = Inr (False, c2)" by simp
    with assms have "e = Entry0" "c1 = c2" by (simp_all add: take_entry_def)
    with ensure_pending_False_entries [OF ep] show ?thesis by simp
  qed
qed

lemma take_entry_pending:
  assumes "has_pending c"
  shows "take_entry c = Inr (pending c, c\<lparr>has_pending := False\<rparr>)"
  using assms by (simp add: take_entry_def ensure_pending_has_pending)

lemma leaf_loop_entries:
  assumes "leaf_loop leaf out_vals count = Inr (cnt, leaf', out')"
      and "entries leaf = e # rest"
  shows "entries leaf' = dropWhile (\<lambda>x. e_rep x \<noteq> 0) rest \<and>
         out' = map_option
                  (\<lambda>xs. xs @ map e_value (e # takeWhile (\<lambda>x. e_rep x \<noteq> 0) rest)) out_vals \<and>
         cnt = count + of_nat (length (e # takeWhile (\<lambda>x. e_rep x \<noteq> 0) rest))"
  using assms
proof (induction leaf out_vals count arbitrary: e rest rule: leaf_loop.induct)
  case (1 leaf out_vals count)
  from "1.prems"(1) obtain e0 leaf1 where t: "take_entry leaf = Inr (e0, leaf1)"
    by (subst (asm) leaf_loop.simps) (auto split: sum.splits)
  from take_entry_entries [OF t] "1.prems"(2) have e0: "e0 = e" and l1: "entries leaf1 = rest"
    by auto
  from "1.prems"(1) t obtain n leaf2 where pk: "peek leaf1 = Inr (n, leaf2)"
    by (subst (asm) leaf_loop.simps) (auto split: sum.splits)
  show ?case
  proof (cases n)
    case None
    with peek_None_entries [of leaf1 leaf2] pk l1 have "rest = []" "entries leaf2 = []"
      by auto
    moreover from "1.prems"(1) t pk None e0
    have "cnt = count + 1" "leaf' = leaf2" "out' = push_back_opt out_vals (e_value e)"
      by (subst (asm) leaf_loop.simps, simp)+
    ultimately show ?thesis by (cases out_vals) (simp_all add: push_back_opt_def)
  next
    case (Some ne)
    with peek_Some_entries [of leaf1 ne leaf2] pk l1
    have r: "rest = ne # entries (leaf2\<lparr>has_pending := False\<rparr>)" and l2: "entries leaf2 = rest"
      by auto
    show ?thesis
    proof (cases "e_rep ne = 0")
      case True
      from "1.prems"(1) t pk Some e0 True
      have "cnt = count + 1" "leaf' = leaf2" "out' = push_back_opt out_vals (e_value e)"
        by (subst (asm) leaf_loop.simps, simp)+
      with l2 r True show ?thesis
        by (cases out_vals) (simp_all add: push_back_opt_def)
    next
      case False
      from "1.prems"(1) t pk Some False
      have rec: "leaf_loop leaf2 (push_back_opt out_vals (e_value e0)) (count + 1)
                 = Inr (cnt, leaf', out')"
        by (subst (asm) leaf_loop.simps) simp
      from l2 r have l2': "entries leaf2 = ne # entries (leaf2\<lparr>has_pending := False\<rparr>)"
        by simp
      from "1.IH" [OF t refl pk refl Some False rec l2'] e0
      have ih: "entries leaf' =
                  dropWhile (\<lambda>x. e_rep x \<noteq> 0) (entries (leaf2\<lparr>has_pending := False\<rparr>))"
               "out' = map_option
                  (\<lambda>xs. xs @ map e_value
                     (ne # takeWhile (\<lambda>x. e_rep x \<noteq> 0) (entries (leaf2\<lparr>has_pending := False\<rparr>))))
                  (push_back_opt out_vals (e_value e))"
               "cnt = count + 1 + of_nat (length
                  (ne # takeWhile (\<lambda>x. e_rep x \<noteq> 0) (entries (leaf2\<lparr>has_pending := False\<rparr>))))"
        by auto
      with r False show ?thesis
        by (cases out_vals) (simp_all add: push_back_opt_def)
    qed
  qed
qed

lemma peek_Inl_entries: "peek c = Inl x \<Longrightarrow> entries c = []"
  by (subst entries.simps) (auto simp: peek_def split: sum.splits prod.splits bool.splits)

lemma take_entry_Inl_entries: "take_entry c = Inl x \<Longrightarrow> entries c = []"
  by (subst entries.simps) (auto simp: take_entry_def split: sum.splits prod.splits bool.splits)

lemma entries_Cons_ensure:
  assumes "entries c = e # rest"
  shows "\<exists>c1. ensure_pending c = Inr (True, c1) \<and> pending c1 = e \<and> has_pending c1 \<and>
              entries c1 = e # rest \<and> entries (c1\<lparr>has_pending := False\<rparr>) = rest"
proof -
  from assms obtain c1 where ep: "ensure_pending c = Inr (True, c1)"
    by (subst (asm) entries.simps) (auto split: sum.splits if_splits)
  from ensure_pending_True_entries [OF ep] assms ensure_pending_remaining [OF ep]
  show ?thesis using ep by auto
qed

lemma entries_Cons_peek:
  assumes "entries c = e # rest"
  shows "\<exists>c1. peek c = Inr (Some e, c1) \<and> has_pending c1 \<and> pending c1 = e \<and>
              entries c1 = e # rest"
  using entries_Cons_ensure [OF assms] by (auto simp: peek_def)

lemma entries_Cons_take:
  assumes "entries c = e # rest"
  shows "\<exists>c1. take_entry c = Inr (e, c1) \<and> entries c1 = rest"
  using entries_Cons_ensure [OF assms] by (auto simp: take_entry_def)

lemma peek_entries:
  assumes "peek c = Inr (n, c1)"
  shows "entries c1 = entries c" and "n = (case entries c of [] \<Rightarrow> None | x # xs \<Rightarrow> Some x)"
proof -
  show "entries c1 = entries c"
  proof (cases n)
    case None
    with assms peek_None_entries [of c c1] show ?thesis by simp
  next
    case (Some a)
    with assms peek_Some_entries(2) [of c a c1] show ?thesis by simp
  qed
  show "n = (case entries c of [] \<Rightarrow> None | x # xs \<Rightarrow> Some x)"
  proof (cases n)
    case None
    with assms peek_None_entries [of c c1] show ?thesis by simp
  next
    case (Some a)
    with assms peek_Some_entries(1) [of c a c1] show ?thesis by simp
  qed
qed

lemma leaf_loop_error:
  assumes "leaf_loop leaf out_vals count = Inl x" and "entries leaf = e # rest"
  shows "takeWhile (\<lambda>x. e_rep x \<noteq> 0) rest = rest"
  using assms
proof (induction leaf out_vals count arbitrary: e rest rule: leaf_loop.induct)
  case (1 leaf out_vals count)
  from entries_Cons_take [OF "1.prems"(2)] obtain leaf1
    where t: "take_entry leaf = Inr (e, leaf1)" and e1: "entries leaf1 = rest" by blast
  show ?case
  proof (cases "peek leaf1")
    case (Inl y)
    from peek_Inl_entries [OF this] e1 show ?thesis by simp
  next
    case (Inr r)
    obtain n leaf2 where r: "r = (n, leaf2)" by (cases r)
    with Inr have pk: "peek leaf1 = Inr (n, leaf2)" by simp
    from peek_entries [OF pk] e1
    have f: "entries leaf2 = rest" "n = (case rest of [] \<Rightarrow> None | x # xs \<Rightarrow> Some x)"
      by simp_all
    show ?thesis
    proof (cases rest)
      case Nil
      then show ?thesis by simp
    next
      case (Cons ne rest')
      with f have n: "n = Some ne" by simp
      show ?thesis
      proof (cases "e_rep ne = 0")
        case True
        with "1.prems"(1) t pk n show ?thesis
          by (subst (asm) leaf_loop.simps) simp
      next
        case False
        with "1.prems"(1) t pk n
        have rec: "leaf_loop leaf2 (push_back_opt out_vals (e_value e)) (count + 1) = Inl x"
          by (subst (asm) leaf_loop.simps) simp
        from f Cons have g: "entries leaf2 = ne # rest'" by simp
        from "1.IH" [OF t refl pk refl n False rec g] Cons False show ?thesis by simp
      qed
    qed
  qed
qed

subsection \<open>Columns that end without an exception\<close>

lemma ensure_pending_failure:
  assumes "ensure_pending c = Inr (b, c1)"
  shows "failure c1 = failure c"
proof (cases b)
  case True
  with assms have ep: "ensure_pending c = Inr (True, c1)" by simp
  then have a: "failure c = failure (c1\<lparr>has_pending := False\<rparr>)"
    by (subst failure.simps) simp
  from ensure_pending_remaining [OF ep] have "has_pending c1" by simp
  then have "ensure_pending c1 = Inr (True, c1)" by (rule ensure_pending_has_pending)
  then have "failure c1 = failure (c1\<lparr>has_pending := False\<rparr>)"
    by (subst failure.simps) simp
  with a show ?thesis by simp
next
  case False
  with assms have ep: "ensure_pending c = Inr (False, c1)" by simp
  then have a: "failure c = None" by (subst failure.simps) simp
  from ensure_pending_False [OF ep] have "ensure_pending c1 = Inr (False, c1)"
    by (simp add: ensure_pending_def)
  then have "failure c1 = None" by (subst failure.simps) simp
  with a show ?thesis by simp
qed

lemma ensure_pending_Inl_failure: "ensure_pending c = Inl x \<Longrightarrow> failure c = Some x"
  by (subst failure.simps) simp

lemma take_entry_failure:
  assumes "take_entry c = Inr (e, c1)"
  shows "failure c1 = failure c"
proof (cases "ensure_pending c")
  case (Inl x)
  with assms show ?thesis by (simp add: take_entry_def)
next
  case (Inr q)
  obtain b c2 where q: "q = (b, c2)" by (cases q)
  show ?thesis
  proof (cases b)
    case True
    with Inr q have ep: "ensure_pending c = Inr (True, c2)" by simp
    with assms have c1: "c1 = c2\<lparr>has_pending := False\<rparr>" by (simp add: take_entry_def)
    from ep have "failure c = failure (c2\<lparr>has_pending := False\<rparr>)"
      by (subst failure.simps) simp
    with c1 show ?thesis by simp
  next
    case False
    with Inr q have ep: "ensure_pending c = Inr (False, c2)" by simp
    with assms have "c1 = c2" by (simp add: take_entry_def)
    with ensure_pending_failure [OF ep] show ?thesis by simp
  qed
qed

lemma take_entry_clean:
  assumes "failure c = None"
  shows "\<exists>e c1. take_entry c = Inr (e, c1) \<and> failure c1 = None"
proof (cases "take_entry c")
  case (Inl x)
  then have "ensure_pending c = Inl x"
    by (auto simp: take_entry_def split: sum.splits prod.splits bool.splits)
  from ensure_pending_Inl_failure [OF this] assms show ?thesis by simp
next
  case (Inr r)
  obtain e c1 where "r = (e, c1)" by (cases r)
  with Inr take_entry_failure [of c e c1] assms show ?thesis by simp
qed

lemma peek_failure:
  assumes "peek c = Inr (n, c1)"
  shows "failure c1 = failure c"
proof -
  from assms obtain b where "ensure_pending c = Inr (b, c1)"
    by (auto simp: peek_def split: sum.splits prod.splits bool.splits)
  then show ?thesis by (rule ensure_pending_failure)
qed

lemma peek_clean:
  assumes "failure c = None"
  shows "\<exists>n c1. peek c = Inr (n, c1) \<and> failure c1 = None"
proof (cases "peek c")
  case (Inl x)
  then have "ensure_pending c = Inl x"
    by (auto simp: peek_def split: sum.splits prod.splits bool.splits)
  from ensure_pending_Inl_failure [OF this] assms show ?thesis by simp
next
  case (Inr r)
  obtain n c1 where "r = (n, c1)" by (cases r)
  with Inr peek_failure [of c n c1] assms show ?thesis by simp
qed

lemma leaf_loop_clean:
  assumes "failure leaf = None"
  shows "\<exists>cnt leaf' out'. leaf_loop leaf out_vals count = Inr (cnt, leaf', out') \<and>
                          failure leaf' = None"
  using assms
proof (induction leaf out_vals count rule: leaf_loop.induct)
  case (1 leaf out_vals count)
  from take_entry_clean [OF "1.prems"] obtain e leaf1
    where t: "take_entry leaf = Inr (e, leaf1)" and c1: "failure leaf1 = None" by blast
  from peek_clean [OF c1] obtain n leaf2
    where pk: "peek leaf1 = Inr (n, leaf2)" and c2: "failure leaf2 = None" by blast
  show ?case
  proof (cases n)
    case None
    with t pk c2 show ?thesis by (subst leaf_loop.simps) simp
  next
    case (Some ne)
    show ?thesis
    proof (cases "e_rep ne = 0")
      case True
      with Some t pk c2 show ?thesis by (subst leaf_loop.simps) simp
    next
      case False
      from "1.IH" [OF t refl pk refl Some False c2] Some False t pk show ?thesis
        by (subst leaf_loop.simps) simp
    qed
  qed
qed

lemma append_leaf_clean:
  assumes "failure leaf = None"
  shows "\<exists>cnt leaf' out'. append_list_from_leaf_for_row leaf out_vals = Inr (cnt, leaf', out') \<and>
                          failure leaf' = None"
proof -
  from peek_clean [OF assms] obtain n leaf1
    where pk: "peek leaf = Inr (n, leaf1)" and c1: "failure leaf1 = None" by blast
  show ?thesis
  proof (cases n)
    case None
    with pk c1 show ?thesis by (simp add: append_list_from_leaf_for_row_def)
  next
    case (Some p)
    show ?thesis
    proof (cases "\<not> e_has_value p \<and> e_rep p = 0")
      case True
      from take_entry_clean [OF c1] obtain e leaf2
        where "take_entry leaf1 = Inr (e, leaf2)" "failure leaf2 = None" by blast
      with pk Some True show ?thesis by (simp add: append_list_from_leaf_for_row_def)
    next
      case False
      from leaf_loop_clean [OF c1, of out_vals 0] pk Some False show ?thesis
        by (auto simp: append_list_from_leaf_for_row_def)
    qed
  qed
qed

lemma ensure_pending_in_batch:
  assumes "in_full_batches c" and "level_idx c < length (levbuf c)"
  shows "\<exists>c1. ensure_pending c = Inr (True, c1) \<and>
              pending c1 = value_entry (levbuf c ! level_idx c, valbuf c ! level_idx c) \<and>
              in_full_batches (c1\<lparr>has_pending := False\<rparr>) \<and>
              levbuf c1 = levbuf c \<and> valbuf c1 = valbuf c \<and> rdr c1 = rdr c \<and>
              level_idx c1 = level_idx c + 1"
  using assms
  by (auto simp: in_full_batches_def ensure_pending_def Let_def value_entry_def
                 list_all_length)

lemma ensure_pending_next_batch:
  assumes "in_full_batches c" and "level_idx c = length (levbuf c)"
      and "rdr c = Batch ls vs # rest"
  shows "\<exists>c1. ensure_pending c = Inr (True, c1) \<and>
              pending c1 = value_entry (ls ! 0, vs ! 0) \<and>
              in_full_batches (c1\<lparr>has_pending := False\<rparr>) \<and>
              levbuf c1 = ls \<and> valbuf c1 = vs \<and> rdr c1 = rest \<and> level_idx c1 = 1"
proof -
  from assms(1,3) have fb: "full_batch (max_def c) (Batch ls vs)"
    and r: "list_all (full_batch (max_def c)) rest"
    by (simp_all add: in_full_batches_def)
  from fb have ne: "ls \<noteq> []" and len: "length vs = length ls"
    and all: "list_all (\<lambda>l. fst l = max_def c) ls" by simp_all
  from ne all have d0: "fst (ls ! 0) = max_def c" by (cases ls) simp_all
  from ne have l1: "1 \<le> length ls" "0 < length ls" by (cases ls, simp_all)+
  from assms(1) have b: "\<not> eof c" "\<not> has_pending c" "max_def c \<noteq> 0" "max_rep c \<noteq> 0"
    by (simp_all add: in_full_batches_def)
  let ?c' = "c\<lparr>rdr := rest, levbuf := ls, valbuf := vs, level_idx := 0, value_idx := 0\<rparr>"
  from b assms(3) ne have rf: "refill c = Inr (True, ?c')"
    by (simp add: refill_def)
  let ?c1 = "?c'\<lparr>value_idx := 1, level_idx := 1,
                 pending := \<lparr>e_def = fst (ls ! 0), e_rep = snd (ls ! 0), e_has_value = True,
                             e_value = vs ! 0, e_valid = True\<rparr>,
                 has_pending := True\<rparr>"
  from b assms(2) rf d0 l1 len have ep: "ensure_pending c = Inr (True, ?c1)"
    by (simp add: ensure_pending_def Let_def)
  from b ne len all r have "in_full_batches (?c1\<lparr>has_pending := False\<rparr>)"
    by (simp add: in_full_batches_def Suc_le_eq)
  with ep show ?thesis by (simp add: value_entry_def)
qed

lemma ensure_pending_end:
  assumes "in_full_batches c" and "level_idx c = length (levbuf c)" and "rdr c = []"
  shows "\<exists>c1. ensure_pending c = Inr (False, c1)"
  using assms
  by (auto simp: in_full_batches_def ensure_pending_def refill_def)

lemma full_batches_entries:
  assumes "in_full_batches c"
  shows "entries c = drop (level_idx c) (map value_entry (zip (levbuf c) (valbuf c))) @
                     concat (map batch_entries (rdr c)) \<and>
         failure c = None"
  using assms
proof (induction c rule: entries.induct)
  case (1 c)
  show ?case
  proof (cases "level_idx c < length (levbuf c)")
    case True
    from ensure_pending_in_batch [OF "1.prems" True] obtain c1 where
      ep: "ensure_pending c = Inr (True, c1)"
      and p: "pending c1 = value_entry (levbuf c ! level_idx c, valbuf c ! level_idx c)"
      and f: "in_full_batches (c1\<lparr>has_pending := False\<rparr>)"
      and s: "levbuf c1 = levbuf c" "valbuf c1 = valbuf c" "rdr c1 = rdr c"
             "level_idx c1 = level_idx c + 1"
      by blast
    from "1.IH" [OF ep refl _ f] s
    have ih: "entries (c1\<lparr>has_pending := False\<rparr>)
              = drop (level_idx c + 1) (map value_entry (zip (levbuf c) (valbuf c))) @
                concat (map batch_entries (rdr c))"
             "failure (c1\<lparr>has_pending := False\<rparr>) = None"
      by simp_all
    from "1.prems" True
    have d: "drop (level_idx c) (map value_entry (zip (levbuf c) (valbuf c)))
             = value_entry (levbuf c ! level_idx c, valbuf c ! level_idx c) #
               drop (level_idx c + 1) (map value_entry (zip (levbuf c) (valbuf c)))"
      by (simp add: in_full_batches_def Cons_nth_drop_Suc [symmetric])
    have e: "entries c = pending c1 # entries (c1\<lparr>has_pending := False\<rparr>)"
      using ep by (subst entries.simps) simp
    have g: "failure c = failure (c1\<lparr>has_pending := False\<rparr>)"
      using ep by (subst failure.simps) simp
    from e g ih p d show ?thesis by simp
  next
    case False
    with "1.prems" have at_end: "level_idx c = length (levbuf c)"
      by (simp add: in_full_batches_def)
    show ?thesis
    proof (cases "rdr c")
      case Nil
      from ensure_pending_end [OF "1.prems" at_end Nil] obtain c1
        where ep: "ensure_pending c = Inr (False, c1)" by blast
      have "entries c = []" using ep by (subst entries.simps) simp
      moreover have "failure c = None" using ep by (subst failure.simps) simp
      ultimately show ?thesis using at_end Nil by simp
    next
      case (Cons b rest)
      from "1.prems" Cons have fb: "full_batch (max_def c) b"
        by (simp add: in_full_batches_def)
      then obtain ls vs where b: "b = Batch ls vs" by (cases b) simp_all
      from fb b have ne: "ls \<noteq> []" and len: "length vs = length ls" by simp_all
      from ensure_pending_next_batch [OF "1.prems" at_end Cons [unfolded b]] obtain c1 where
        ep: "ensure_pending c = Inr (True, c1)"
        and p: "pending c1 = value_entry (ls ! 0, vs ! 0)"
        and f: "in_full_batches (c1\<lparr>has_pending := False\<rparr>)"
        and s: "levbuf c1 = ls" "valbuf c1 = vs" "rdr c1 = rest" "level_idx c1 = 1"
        by blast
      from "1.IH" [OF ep refl _ f] s
      have ih: "entries (c1\<lparr>has_pending := False\<rparr>)
                = drop 1 (map value_entry (zip ls vs)) @ concat (map batch_entries rest)"
               "failure (c1\<lparr>has_pending := False\<rparr>) = None"
        by simp_all
      from ne len have d: "map value_entry (zip ls vs)
                           = value_entry (ls ! 0, vs ! 0) # drop 1 (map value_entry (zip ls vs))"
        by (cases ls; cases vs) simp_all
      have e: "entries c = pending c1 # entries (c1\<lparr>has_pending := False\<rparr>)"
        using ep by (subst entries.simps) simp
      have g: "failure c = failure (c1\<lparr>has_pending := False\<rparr>)"
        using ep by (subst failure.simps) simp
      from e g ih p d at_end Cons b show ?thesis by simp
    qed
  qed
qed

lemma fresh_cursor_full_batches:
  assumes "mdef \<noteq> 0" and "mrep \<noteq> 0" and "list_all (full_batch mdef) col"
  shows "entries (fresh_cursor col mdef mrep) = concat (map batch_entries col)"
    and "failure (fresh_cursor col mdef mrep) = None"
proof -
  from assms have "in_full_batches (fresh_cursor col mdef mrep)"
    by (simp add: in_full_batches_def fresh_cursor_def)
  from full_batches_entries [OF this]
  show "entries (fresh_cursor col mdef mrep) = concat (map batch_entries col)"
    and "failure (fresh_cursor col mdef mrep) = None"
    by (simp_all add: fresh_cursor_def)
qed

subsection \<open>The single-leaf list assembler\<close>

lemma append_leaf_empty_start:
  assumes "entries leaf = p # rest" and "\<not> e_has_value p \<and> e_rep p = 0"
  shows "\<exists>leaf'. append_list_from_leaf_for_row leaf out_vals = Inr (0, leaf', out_vals) \<and>
                 entries leaf' = rest"
proof -
  from assms(1) obtain c1 where ep: "ensure_pending leaf = Inr (True, c1)"
    by (subst (asm) entries.simps) (auto split: sum.splits if_splits)
  from ensure_pending_remaining [OF ep] have hp: "has_pending c1" by simp
  from ensure_pending_True_entries(1) [OF ep] assms(1)
  have p: "pending c1 = p" and r: "entries (c1\<lparr>has_pending := False\<rparr>) = rest" by simp_all
  from ep p have pk: "peek leaf = Inr (Some p, c1)" by (simp add: peek_def)
  from pk assms(2) take_entry_pending [OF hp]
  have "append_list_from_leaf_for_row leaf out_vals
        = Inr (0, c1\<lparr>has_pending := False\<rparr>, out_vals)"
    by (simp add: append_list_from_leaf_for_row_def)
  with r show ?thesis by blast
qed

lemma append_leaf_nonempty_start:
  assumes "entries leaf = p # rest" and "\<not> (\<not> e_has_value p \<and> e_rep p = 0)"
      and "append_list_from_leaf_for_row leaf out_vals = Inr (count, leaf', out')"
  shows "entries leaf' = dropWhile (\<lambda>x. e_rep x \<noteq> 0) rest \<and>
         out' = map_option
                  (\<lambda>xs. xs @ map e_value (p # takeWhile (\<lambda>x. e_rep x \<noteq> 0) rest)) out_vals \<and>
         count = of_nat (length (p # takeWhile (\<lambda>x. e_rep x \<noteq> 0) rest))"
proof -
  from assms(1) obtain c1 where ep: "ensure_pending leaf = Inr (True, c1)"
    by (subst (asm) entries.simps) (auto split: sum.splits if_splits)
  from ensure_pending_True_entries [OF ep] assms(1)
  have p: "pending c1 = p" and r: "entries c1 = p # rest" by simp_all
  from ep p have pk: "peek leaf = Inr (Some p, c1)" by (simp add: peek_def)
  from pk assms(2,3) have "leaf_loop c1 out_vals 0 = Inr (count, leaf', out')"
    by (auto simp: append_list_from_leaf_for_row_def)
  from leaf_loop_entries [OF this r] show ?thesis by simp
qed

lemma unat_count:
  "n < 2 ^ 32 \<Longrightarrow> unat (of_nat n :: u32) = n"
  by (simp add: unat_of_nat take_bit_nat_eq_self)

text \<open>
  Claim C6. Let the entries still to come from the leaf cursor be \<open>p # rest\<close>. If \<open>p\<close> has
  no value and repetition level zero, the call returns normally with count 0,
  leaves the output as it was and has consumed exactly \<open>p\<close>. Otherwise, when the
  call returns, it has consumed \<open>p\<close> and the longest run of following entries
  with a nonzero repetition level (it stops in front of the first entry with
  repetition level zero, or at the end of the column), it has appended the value
  of each consumed entry to the output, and the returned count, a \<open>uint32_t\<close>, is
  the number of appended elements modulo \<open>2^32\<close>: the number itself when the row
  has fewer than \<open>2^32\<close> elements. The call throws only when the run reaches
  the point where reading the column throws; on a column that ends without an
  exception it returns.
\<close>

theorem single_leaf_row_assembly:
  assumes "entries leaf = p # rest"
  shows "(if \<not> e_has_value p \<and> e_rep p = 0
          then \<exists>leaf'. append_list_from_leaf_for_row leaf out_vals = Inr (0, leaf', out_vals) \<and>
                       entries leaf' = rest
          else case append_list_from_leaf_for_row leaf out_vals of
                 Inl x \<Rightarrow> takeWhile (\<lambda>x. e_rep x \<noteq> 0) rest = rest
               | Inr (count, leaf', out') \<Rightarrow>
                   entries leaf' = dropWhile (\<lambda>x. e_rep x \<noteq> 0) rest \<and>
                   out' = map_option
                            (\<lambda>xs. xs @ map e_value (p # takeWhile (\<lambda>x. e_rep x \<noteq> 0) rest))
                            out_vals \<and>
                   count = of_nat (length (p # takeWhile (\<lambda>x. e_rep x \<noteq> 0) rest)) \<and>
                   (length (p # takeWhile (\<lambda>x. e_rep x \<noteq> 0) rest) < 2 ^ 32 \<longrightarrow>
                      unat count = length (p # takeWhile (\<lambda>x. e_rep x \<noteq> 0) rest))) \<and>
         (failure leaf = None \<longrightarrow> \<not> isl (append_list_from_leaf_for_row leaf out_vals))"
proof (intro conjI impI)
  show "if \<not> e_has_value p \<and> e_rep p = 0
          then \<exists>leaf'. append_list_from_leaf_for_row leaf out_vals = Inr (0, leaf', out_vals) \<and>
                       entries leaf' = rest
          else case append_list_from_leaf_for_row leaf out_vals of
                 Inl x \<Rightarrow> takeWhile (\<lambda>x. e_rep x \<noteq> 0) rest = rest
               | Inr (count, leaf', out') \<Rightarrow>
                   entries leaf' = dropWhile (\<lambda>x. e_rep x \<noteq> 0) rest \<and>
                   out' = map_option
                            (\<lambda>xs. xs @ map e_value (p # takeWhile (\<lambda>x. e_rep x \<noteq> 0) rest))
                            out_vals \<and>
                   count = of_nat (length (p # takeWhile (\<lambda>x. e_rep x \<noteq> 0) rest)) \<and>
                   (length (p # takeWhile (\<lambda>x. e_rep x \<noteq> 0) rest) < 2 ^ 32 \<longrightarrow>
                      unat count = length (p # takeWhile (\<lambda>x. e_rep x \<noteq> 0) rest))"
  proof (cases "\<not> e_has_value p \<and> e_rep p = 0")
    case True
    with append_leaf_empty_start [OF assms True, of out_vals] show ?thesis by simp
  next
    case False
    show ?thesis
    proof (cases "append_list_from_leaf_for_row leaf out_vals")
      case (Inl x)
      from entries_Cons_peek [OF assms] obtain c1
        where pk: "peek leaf = Inr (Some p, c1)" and r: "entries c1 = p # rest" by blast
      from pk False Inl have "leaf_loop c1 out_vals 0 = Inl x"
        by (auto simp: append_list_from_leaf_for_row_def)
      from leaf_loop_error [OF this r] False Inl show ?thesis by auto
    next
      case (Inr r)
      obtain count leaf' out' where r: "r = (count, leaf', out')" by (cases r)
      note s = append_leaf_nonempty_start [OF assms False Inr [unfolded r]]
      from s have "length (p # takeWhile (\<lambda>x. e_rep x \<noteq> 0) rest) < 2 ^ 32 \<longrightarrow>
                   unat count = length (p # takeWhile (\<lambda>x. e_rep x \<noteq> 0) rest)"
        using unat_count [of "length (p # takeWhile (\<lambda>x. e_rep x \<noteq> 0) rest)"] by simp
      with s False Inr r show ?thesis by auto
    qed
  qed
next
  assume "failure leaf = None"
  from append_leaf_clean [OF this, of out_vals]
  show "\<not> isl (append_list_from_leaf_for_row leaf out_vals)" by auto
qed

theorem single_leaf_row_assembly_witness:
  "entries demo_leaf = elem 0 10 # [elem 1 20, empty_list_entry, elem 0 30] \<and>
   (\<exists>leaf'. append_list_from_leaf_for_row demo_leaf (Some [5]) = Inr (2, leaf', Some [5, 10, 20]) \<and>
             entries leaf' = [empty_list_entry, elem 0 30]) \<and>
   entries demo_leaf2 = empty_list_entry # [elem 0 30] \<and>
   (\<exists>leaf'. append_list_from_leaf_for_row demo_leaf2 (Some [5]) = Inr (0, leaf', Some [5]) \<and>
             entries leaf' = [elem 0 30]) \<and>
   failure demo_leaf = None \<and>
   \<not> isl (append_list_from_leaf_for_row demo_leaf None)"
proof -
  have h1: "entries demo_leaf = elem 0 10 # [elem 1 20, empty_list_entry, elem 0 30]"
    by code_simp
  have h2: "entries demo_leaf2 = empty_list_entry # [elem 0 30]"
    by code_simp
  have h3: "failure demo_leaf = None"
    by code_simp
  obtain r where r: "append_list_from_leaf_for_row demo_leaf (Some [5]) = r" by simp
  have "case r of Inl x \<Rightarrow> False | Inr (c, l, out) \<Rightarrow> c = 2 \<and> out = Some [5, 10, 20]"
    unfolding r [symmetric] by code_simp
  then obtain l
    where l: "append_list_from_leaf_for_row demo_leaf (Some [5]) = Inr (2, l, Some [5, 10, 20])"
    using r by (auto split: sum.splits)
  from single_leaf_row_assembly [OF h1, of "Some [5]", THEN conjunct1] l
  have "entries l = [empty_list_entry, elem 0 30]"
    by (simp add: elem_def empty_list_entry_def)
  with l have a: "\<exists>leaf'. append_list_from_leaf_for_row demo_leaf (Some [5])
                          = Inr (2, leaf', Some [5, 10, 20]) \<and>
                        entries leaf' = [empty_list_entry, elem 0 30]"
    by blast
  from single_leaf_row_assembly [OF h2, of "Some [5]", THEN conjunct1]
  have b: "\<exists>leaf'. append_list_from_leaf_for_row demo_leaf2 (Some [5]) = Inr (0, leaf', Some [5]) \<and>
                  entries leaf' = [elem 0 30]"
    by (simp add: elem_def empty_list_entry_def)
  from single_leaf_row_assembly [OF h1, of None, THEN conjunct2] h3
  have c: "\<not> isl (append_list_from_leaf_for_row demo_leaf None)" by simp
  from h1 a h2 b h3 c show ?thesis by blast
qed

lemma concat_replicate_replicate:
  "concat (replicate n (replicate m x)) = replicate (n * m) x"
  by (induction n) (simp_all add: replicate_add)

lemma big_list_col_full: "list_all (full_batch 2) big_list_col"
  by (simp add: big_list_col_def list_all_iff)

lemma big_list_col_entries:
  "concat (map batch_entries big_list_col) = elem 0 7 # replicate 4294967295 (elem 1 7)"
proof -
  have a: "replicate 65536 (7 :: int) = 7 # replicate 65535 7"
    by (simp add: replicate_Suc [symmetric] del: replicate_Suc)
  have b: "value_entry ((2, 0), 7) = elem 0 7" "value_entry ((2, 1), 7) = elem 1 7"
    by (simp_all add: value_entry_def elem_def)
  have c: "batch_entries (Batch ((2, 0) # replicate 65535 (2, 1)) (replicate 65536 7))
           = elem 0 7 # replicate 65535 (elem 1 7)"
    by (simp add: a b zip_replicate)
  have d: "batch_entries (Batch (replicate 65536 (2, 1)) (replicate 65536 7))
           = replicate 65536 (elem 1 7)"
    by (simp add: b zip_replicate)
  have "concat (map batch_entries big_list_col)
        = (elem 0 7 # replicate 65535 (elem 1 7)) @
          concat (replicate 65535 (replicate 65536 (elem 1 7)))"
    unfolding big_list_col_def by (simp only: list.map concat.simps c map_replicate d)
  also have "\<dots> = elem 0 7 # replicate (65535 + 65535 * 65536) (elem 1 7)"
    by (simp only: concat_replicate_replicate replicate_add append_Cons)
  also have "(65535 + 65535 * 65536 :: nat) = 4294967295" by simp
  finally show ?thesis .
qed

lemma big_leaf_entries:
  "entries big_leaf = elem 0 7 # replicate 4294967295 (elem 1 7)"
  "failure big_leaf = None"
  using fresh_cursor_full_batches [of 2 1 big_list_col] big_list_col_full
  by (simp_all add: big_leaf_def big_list_col_entries)

lemma big_leaf_row:
  "\<exists>leaf'. append_list_from_leaf_for_row big_leaf (Some [])
           = Inr (0, leaf', Some (replicate 4294967296 7)) \<and>
           entries leaf' = [] \<and> failure leaf' = None"
proof -
  from append_leaf_clean [OF big_leaf_entries(2), of "Some []"] obtain cnt leaf' out'
    where r: "append_list_from_leaf_for_row big_leaf (Some []) = Inr (cnt, leaf', out')"
      and f: "failure leaf' = None" by blast
  have ne: "\<not> (\<not> e_has_value (elem 0 7) \<and> e_rep (elem 0 7) = 0)" by (simp add: elem_def)
  have tw: "takeWhile (\<lambda>x. e_rep x \<noteq> 0) (replicate 4294967295 (elem 1 7))
            = replicate 4294967295 (elem 1 7)"
           "dropWhile (\<lambda>x. e_rep x \<noteq> 0) (replicate 4294967295 (elem 1 7)) = []"
    by (simp_all add: takeWhile_replicate dropWhile_replicate elem_def)
  have v: "map e_value (elem 0 7 # replicate 4294967295 (elem 1 7)) = replicate 4294967296 7"
  proof -
    have "replicate 4294967296 (7 :: int) = 7 # replicate 4294967295 7"
      by (simp add: replicate_Suc [symmetric] del: replicate_Suc)
    then show ?thesis by (simp add: elem_def)
  qed
  have w: "(of_nat (length (elem 0 7 # replicate 4294967295 (elem 1 7))) :: u32) = 0"
    by simp
  from append_leaf_nonempty_start [OF big_leaf_entries(1) ne r]
  have "entries leaf' = []" "out' = Some (replicate 4294967296 7)" "cnt = 0"
    unfolding tw v w by simp_all
  with r f show ?thesis by simp
qed

text \<open>
  As the claim states it, the count would be the number of elements appended for
  every row. The count is a \<open>uint32_t\<close>: for a row of \<open>2^32\<close> elements the call
  appends \<open>4294967296\<close> values and returns 0.
\<close>

theorem row_of_2_32_elements_is_counted_as_zero:
  "\<not> isl (append_list_from_leaf_for_row big_leaf (Some [])) \<and>
   fst (projr (append_list_from_leaf_for_row big_leaf (Some []))) = 0 \<and>
   snd (snd (projr (append_list_from_leaf_for_row big_leaf (Some []))))
   = Some (replicate 4294967296 7) \<and>
   length (replicate 4294967296 (7 :: int)) = 4294967296"
  using big_leaf_row by auto

subsection \<open>The paired list assembler\<close>

lemma pairs_run_Nil [simp]: "pairs_run [] qs = 0" "pairs_run ps [] = 0"
  by (simp_all add: pairs_run_def)

lemma pairs_run_Cons:
  "pairs_run (a # ps) (b # qs) = (if same_list (a, b) then Suc (pairs_run ps qs) else 0)"
  by (simp add: pairs_run_def)

lemma pairs_loop_entries:
  assumes "pairs_loop px qty out_px out_qty count = Inr (cnt, px', qty', out_px', out_qty')"
      and "entries px = p # ps" and "entries qty = q # qs"
  shows "entries px' = drop (pairs_run ps qs) ps \<and>
         entries qty' = drop (pairs_run ps qs) qs \<and>
         out_px' = map_option (\<lambda>xs. xs @ map e_value (p # take (pairs_run ps qs) ps)) out_px \<and>
         out_qty' = map_option (\<lambda>xs. xs @ map e_value (q # take (pairs_run ps qs) qs)) out_qty \<and>
         cnt = count + of_nat (Suc (pairs_run ps qs))"
  using assms
proof (induction px qty out_px out_qty count arbitrary: p ps q qs rule: pairs_loop.induct)
  case (1 px qty out_px out_qty count)
  from entries_Cons_take [OF "1.prems"(2)] obtain px1
    where t1: "take_entry px = Inr (p, px1)" and e1: "entries px1 = ps" by blast
  from entries_Cons_take [OF "1.prems"(3)] obtain qty1
    where t2: "take_entry qty = Inr (q, qty1)" and e2: "entries qty1 = qs" by blast
  from "1.prems"(1) t1 t2 obtain npx px2 where pk1: "peek px1 = Inr (npx, px2)"
    by (subst (asm) pairs_loop.simps) (auto split: sum.splits)
  from "1.prems"(1) t1 t2 pk1 obtain nqy qty2 where pk2: "peek qty1 = Inr (nqy, qty2)"
    by (subst (asm) pairs_loop.simps) (auto split: sum.splits)
  from peek_entries [OF pk1] e1
  have f1: "entries px2 = ps" "npx = (case ps of [] \<Rightarrow> None | x # xs \<Rightarrow> Some x)" by simp_all
  from peek_entries [OF pk2] e2
  have f2: "entries qty2 = qs" "nqy = (case qs of [] \<Rightarrow> None | x # xs \<Rightarrow> Some x)" by simp_all
  let ?o1 = "push_back_opt out_px (e_value p)" and ?o2 = "push_back_opt out_qty (e_value q)"
  have stop: "pairs_run ps qs = 0 \<Longrightarrow>
              pairs_loop px qty out_px out_qty count = Inr (count + 1, px2, qty2, ?o1, ?o2)
              \<Longrightarrow> ?case"
    using "1.prems"(1) f1 f2
    by (cases out_px; cases out_qty) (auto simp: push_back_opt_def)
  show ?case
  proof (cases ps)
    case Nil
    with f1 t1 t2 pk1 pk2
    have "pairs_loop px qty out_px out_qty count = Inr (count + 1, px2, qty2, ?o1, ?o2)"
      by (subst pairs_loop.simps) simp
    with Nil stop show ?thesis by simp
  next
    case ps: (Cons a ps')
    show ?thesis
    proof (cases qs)
      case Nil
      with ps f1 f2 t1 t2 pk1 pk2
      have "pairs_loop px qty out_px out_qty count = Inr (count + 1, px2, qty2, ?o1, ?o2)"
        by (subst pairs_loop.simps) simp
      with Nil stop show ?thesis by simp
    next
      case qs: (Cons b qs')
      from ps qs f1 f2 have n: "npx = Some a" "nqy = Some b" by simp_all
      show ?thesis
      proof (cases "same_list (a, b)")
        case False
        with ps qs n t1 t2 pk1 pk2
        have "pairs_loop px qty out_px out_qty count = Inr (count + 1, px2, qty2, ?o1, ?o2)"
          by (subst pairs_loop.simps) (auto simp: same_list_def)
        moreover from False ps qs have "pairs_run ps qs = 0" by (simp add: pairs_run_Cons)
        ultimately show ?thesis using stop by simp
      next
        case True
        then have nz: "e_rep a \<noteq> 0" and eq: "\<not> e_rep a \<noteq> e_rep b"
          by (simp_all add: same_list_def)
        from "1.prems"(1) t1 t2 pk1 pk2 n nz eq
        have rec: "pairs_loop px2 qty2 ?o1 ?o2 (count + 1)
                   = Inr (cnt, px', qty', out_px', out_qty')"
          by (subst (asm) pairs_loop.simps) simp
        from f1 ps have g1: "entries px2 = a # ps'" by simp
        from f2 qs have g2: "entries qty2 = b # qs'" by simp
        from "1.IH" [OF t1 refl t2 refl pk1 refl pk2 refl n(1) n(2) nz eq rec g1 g2]
        have ih: "entries px' = drop (pairs_run ps' qs') ps'"
                 "entries qty' = drop (pairs_run ps' qs') qs'"
                 "out_px' = map_option
                    (\<lambda>xs. xs @ map e_value (a # take (pairs_run ps' qs') ps')) ?o1"
                 "out_qty' = map_option
                    (\<lambda>xs. xs @ map e_value (b # take (pairs_run ps' qs') qs')) ?o2"
                 "cnt = count + 1 + of_nat (Suc (pairs_run ps' qs'))"
          by auto
        from True ps qs have k: "pairs_run ps qs = Suc (pairs_run ps' qs')"
          by (simp add: pairs_run_Cons)
        from ih k ps qs show ?thesis
          by (cases out_px; cases out_qty) (simp_all add: push_back_opt_def)
      qed
    qed
  qed
qed

lemma pairs_loop_error:
  assumes "pairs_loop px qty out_px out_qty count = Inl x"
      and "entries px = p # ps" and "entries qty = q # qs"
  shows "pairs_run ps qs = length (zip ps qs)"
  using assms
proof (induction px qty out_px out_qty count arbitrary: p ps q qs rule: pairs_loop.induct)
  case (1 px qty out_px out_qty count)
  from entries_Cons_take [OF "1.prems"(2)] obtain px1
    where t1: "take_entry px = Inr (p, px1)" and e1: "entries px1 = ps" by blast
  from entries_Cons_take [OF "1.prems"(3)] obtain qty1
    where t2: "take_entry qty = Inr (q, qty1)" and e2: "entries qty1 = qs" by blast
  show ?case
  proof (cases "peek px1")
    case (Inl y)
    from peek_Inl_entries [OF this] e1 show ?thesis by simp
  next
    case (Inr r1)
    obtain npx px2 where "r1 = (npx, px2)" by (cases r1)
    with Inr have pk1: "peek px1 = Inr (npx, px2)" by simp
    show ?thesis
    proof (cases "peek qty1")
      case (Inl y)
      from peek_Inl_entries [OF this] e2 show ?thesis by simp
    next
      case (Inr r2)
      obtain nqy qty2 where "r2 = (nqy, qty2)" by (cases r2)
      with Inr have pk2: "peek qty1 = Inr (nqy, qty2)" by simp
      from peek_entries [OF pk1] e1
      have f1: "entries px2 = ps" "npx = (case ps of [] \<Rightarrow> None | x # xs \<Rightarrow> Some x)"
        by simp_all
      from peek_entries [OF pk2] e2
      have f2: "entries qty2 = qs" "nqy = (case qs of [] \<Rightarrow> None | x # xs \<Rightarrow> Some x)"
        by simp_all
      show ?thesis
      proof (cases ps)
        case Nil
        then show ?thesis by simp
      next
        case ps: (Cons a ps')
        show ?thesis
        proof (cases qs)
          case Nil
          then show ?thesis by simp
        next
          case qs: (Cons b qs')
          from ps qs f1 f2 have n: "npx = Some a" "nqy = Some b" by simp_all
          show ?thesis
          proof (cases "same_list (a, b)")
            case False
            with "1.prems"(1) n t1 t2 pk1 pk2 show ?thesis
              by (subst (asm) pairs_loop.simps) (auto simp: same_list_def split: if_splits)
          next
            case True
            then have nz: "e_rep a \<noteq> 0" and eq: "\<not> e_rep a \<noteq> e_rep b"
              by (simp_all add: same_list_def)
            from "1.prems"(1) t1 t2 pk1 pk2 n nz eq
            have rec: "pairs_loop px2 qty2 (push_back_opt out_px (e_value p))
                         (push_back_opt out_qty (e_value q)) (count + 1) = Inl x"
              by (subst (asm) pairs_loop.simps) simp
            from f1 ps have g1: "entries px2 = a # ps'" by simp
            from f2 qs have g2: "entries qty2 = b # qs'" by simp
            from "1.IH" [OF t1 refl t2 refl pk1 refl pk2 refl n(1) n(2) nz eq rec g1 g2]
                 True ps qs
            show ?thesis by (simp add: pairs_run_Cons)
          qed
        qed
      qed
    qed
  qed
qed

lemma paired_row_assembly_core:
  assumes "entries px = p # ps" and "entries qty = q # qs"
  shows "if (\<not> e_has_value p \<and> e_rep p = 0) \<and> (\<not> e_has_value q \<and> e_rep q = 0)
         then \<exists>px' qty'. append_list_pairs_for_row_typed px qty out_px out_qty
                            = Inr (0, px', qty', out_px, out_qty) \<and>
                          entries px' = ps \<and> entries qty' = qs
         else case append_list_pairs_for_row_typed px qty out_px out_qty of
                Inl x \<Rightarrow> pairs_run ps qs = length (zip ps qs)
              | Inr (count, px', qty', out_px', out_qty') \<Rightarrow>
                  entries px' = drop (pairs_run ps qs) ps \<and>
                  entries qty' = drop (pairs_run ps qs) qs \<and>
                  out_px' = map_option
                              (\<lambda>xs. xs @ map e_value (p # take (pairs_run ps qs) ps)) out_px \<and>
                  out_qty' = map_option
                               (\<lambda>xs. xs @ map e_value (q # take (pairs_run ps qs) qs)) out_qty \<and>
                  count = of_nat (Suc (pairs_run ps qs))"
proof -
  from entries_Cons_peek [OF assms(1)] obtain px1
    where pk1: "peek px = Inr (Some p, px1)" and hp1: "has_pending px1" "pending px1 = p"
      and e1: "entries px1 = p # ps" by blast
  from entries_Cons_peek [OF assms(2)] obtain qty1
    where pk2: "peek qty = Inr (Some q, qty1)" and hp2: "has_pending qty1" "pending qty1 = q"
      and e2: "entries qty1 = q # qs" by blast
  show ?thesis
  proof (cases "(\<not> e_has_value p \<and> e_rep p = 0) \<and> (\<not> e_has_value q \<and> e_rep q = 0)")
    case True
    from entries_Cons_take [OF e1] obtain px2
      where t1: "take_entry px1 = Inr (p, px2)" and g1: "entries px2 = ps" by blast
    from entries_Cons_take [OF e2] obtain qty2
      where t2: "take_entry qty1 = Inr (q, qty2)" and g2: "entries qty2 = qs" by blast
    from pk1 pk2 t1 t2 True
    have "append_list_pairs_for_row_typed px qty out_px out_qty
          = Inr (0, px2, qty2, out_px, out_qty)"
      by (simp add: append_list_pairs_for_row_typed_def)
    with g1 g2 True show ?thesis by auto
  next
    case False
    with pk1 pk2
    have eq: "append_list_pairs_for_row_typed px qty out_px out_qty
              = pairs_loop px1 qty1 out_px out_qty 0"
      by (auto simp: append_list_pairs_for_row_typed_def)
    show ?thesis
    proof (cases "pairs_loop px1 qty1 out_px out_qty 0")
      case (Inl x)
      from pairs_loop_error [OF Inl e1 e2] False eq Inl show ?thesis by auto
    next
      case (Inr r)
      obtain count px' qty' out_px' out_qty'
        where r: "r = (count, px', qty', out_px', out_qty')" by (cases r)
      from pairs_loop_entries [OF Inr [unfolded r] e1 e2] False eq Inr r
      show ?thesis by auto
    qed
  qed
qed

text \<open>
  Claim C7. Let the entries still to come be \<open>p # ps\<close> from the price cursor and \<open>q # qs\<close>
  from the quantity cursor. If both \<open>p\<close> and \<open>q\<close> have no value and repetition
  level zero, one entry of each is consumed and nothing is appended. Otherwise
  the call consumes the same number of entries from both cursors, \<open>p\<close> and \<open>q\<close>
  and then one further pair for as long as the next price entry has a nonzero
  repetition level equal to that of the next quantity entry, and appends the
  value of each consumed entry to its output. So the list ends at the first
  pair whose repetition levels disagree, with nothing more consumed, and the
  call returns normally there: it throws only when no such pair stopped it
  before the end of what the two columns deliver.
\<close>

theorem paired_row_assembly:
  assumes "entries px = p # ps" and "entries qty = q # qs"
  shows "if (\<not> e_has_value p \<and> e_rep p = 0) \<and> (\<not> e_has_value q \<and> e_rep q = 0)
         then \<exists>px' qty'. append_list_pairs_for_row_typed px qty out_px out_qty
                            = Inr (0, px', qty', out_px, out_qty) \<and>
                          entries px' = ps \<and> entries qty' = qs
         else case append_list_pairs_for_row_typed px qty out_px out_qty of
                Inl x \<Rightarrow> pairs_run ps qs = length (zip ps qs)
              | Inr (count, px', qty', out_px', out_qty') \<Rightarrow>
                  entries px' = drop (pairs_run ps qs) ps \<and>
                  entries qty' = drop (pairs_run ps qs) qs \<and>
                  out_px' = map_option
                              (\<lambda>xs. xs @ map e_value (p # take (pairs_run ps qs) ps)) out_px \<and>
                  out_qty' = map_option
                               (\<lambda>xs. xs @ map e_value (q # take (pairs_run ps qs) qs)) out_qty \<and>
                  count = of_nat (Suc (pairs_run ps qs))"
  using assms by (rule paired_row_assembly_core)

theorem paired_row_assembly_witness:
  "entries demo_px = elem 0 10 # [elem 1 20, elem 1 30, elem 0 40] \<and>
   entries demo_qty = elem 0 1 # [elem 1 2, elem 0 3, elem 0 4] \<and>
   pairs_run [elem 1 20, elem 1 30, elem 0 40] [elem 1 2, elem 0 3, elem 0 4] = 1 \<and>
   (\<exists>px' qty'. append_list_pairs_for_row_typed demo_px demo_qty (Some []) (Some [])
                  = Inr (2, px', qty', Some [10, 20], Some [1, 2]) \<and>
                entries px' = [elem 1 30, elem 0 40] \<and>
                entries qty' = [elem 0 3, elem 0 4])"
proof -
  have h1: "entries demo_px = elem 0 10 # [elem 1 20, elem 1 30, elem 0 40]"
    by code_simp
  have h2: "entries demo_qty = elem 0 1 # [elem 1 2, elem 0 3, elem 0 4]"
    by code_simp
  have k: "pairs_run [elem 1 20, elem 1 30, elem 0 40] [elem 1 2, elem 0 3, elem 0 4] = 1"
    by (simp add: pairs_run_def same_list_def elem_def)
  obtain r where r: "append_list_pairs_for_row_typed demo_px demo_qty (Some []) (Some []) = r"
    by simp
  have "case r of Inl x \<Rightarrow> False | Inr v \<Rightarrow> True"
    unfolding r [symmetric] by code_simp
  then obtain count px' qty' o1 o2
    where v: "append_list_pairs_for_row_typed demo_px demo_qty (Some []) (Some [])
              = Inr (count, px', qty', o1, o2)"
    using r by (cases r) auto
  from paired_row_assembly [OF h1 h2, of "Some []" "Some []"] v k
  have "entries px' = [elem 1 30, elem 0 40]" "entries qty' = [elem 0 3, elem 0 4]"
       "o1 = Some [10, 20]" "o2 = Some [1, 2]" "count = 2"
    by (simp_all add: elem_def)
  with v h1 h2 k show ?thesis by blast
qed

subsection \<open>Rows outside the window\<close>

text \<open>
  With a null output pointer an assembler returns what it returns with any
  output vector, except for the vector: the same count, the same cursors, the
  same exception.
\<close>

lemma leaf_loop_null:
  "leaf_loop leaf None count
   = (case leaf_loop leaf out_vals count of
        Inl x \<Rightarrow> Inl x | Inr (n, l, out) \<Rightarrow> Inr (n, l, None))"
proof (induction leaf out_vals count rule: leaf_loop.induct)
  case (1 leaf out_vals count)
  show ?case
  proof (cases "take_entry leaf")
    case (Inl x)
    then show ?thesis
      by (subst leaf_loop.simps, subst (2) leaf_loop.simps) simp
  next
    case (Inr r)
    obtain e leaf1 where t: "take_entry leaf = Inr (e, leaf1)" using Inr by (cases r) auto
    show ?thesis
    proof (cases "peek leaf1")
      case (Inl x)
      with t show ?thesis
        by (subst leaf_loop.simps, subst (2) leaf_loop.simps) simp
    next
      case (Inr r2)
      obtain n leaf2 where pk: "peek leaf1 = Inr (n, leaf2)" using Inr by (cases r2) auto
      show ?thesis
      proof (cases n)
        case None
        with t pk show ?thesis
          by (subst leaf_loop.simps, subst (2) leaf_loop.simps) (simp add: push_back_opt_def)
      next
        case (Some ne)
        show ?thesis
        proof (cases "e_rep ne = 0")
          case True
          with t pk Some show ?thesis
            by (subst leaf_loop.simps, subst (2) leaf_loop.simps) (simp add: push_back_opt_def)
        next
          case False
          from "1.IH" [OF t refl pk refl Some False] t pk Some False show ?thesis
            by (subst leaf_loop.simps, subst (2) leaf_loop.simps) (simp add: push_back_opt_def)
        qed
      qed
    qed
  qed
qed

lemma append_leaf_null:
  "append_list_from_leaf_for_row leaf None
   = (case append_list_from_leaf_for_row leaf out_vals of
        Inl x \<Rightarrow> Inl x | Inr (n, l, out) \<Rightarrow> Inr (n, l, None))"
  by (auto simp: append_list_from_leaf_for_row_def leaf_loop_null [of _ _ out_vals]
           split: sum.splits prod.splits option.splits)

lemma pairs_loop_null:
  "pairs_loop px qty None None count
   = (case pairs_loop px qty out_px out_qty count of
        Inl x \<Rightarrow> Inl x | Inr (n, p, q, o1, o2) \<Rightarrow> Inr (n, p, q, None, None))"
proof (induction px qty out_px out_qty count rule: pairs_loop.induct)
  case (1 px qty out_px out_qty count)
  show ?case
  proof (cases "take_entry px")
    case (Inl x)
    then show ?thesis
      by (subst pairs_loop.simps, subst (2) pairs_loop.simps) simp
  next
    case (Inr r)
    obtain epx px1 where t1: "take_entry px = Inr (epx, px1)" using Inr by (cases r) auto
    show ?thesis
    proof (cases "take_entry qty")
      case (Inl x)
      with t1 show ?thesis
        by (subst pairs_loop.simps, subst (2) pairs_loop.simps) simp
    next
      case (Inr r2)
      obtain eqy qty1 where t2: "take_entry qty = Inr (eqy, qty1)" using Inr by (cases r2) auto
      show ?thesis
      proof (cases "peek px1")
        case (Inl x)
        with t1 t2 show ?thesis
          by (subst pairs_loop.simps, subst (2) pairs_loop.simps) simp
      next
        case (Inr r3)
        obtain npx px2 where pk1: "peek px1 = Inr (npx, px2)" using Inr by (cases r3) auto
        show ?thesis
        proof (cases "peek qty1")
          case (Inl x)
          with t1 t2 pk1 show ?thesis
            by (subst pairs_loop.simps, subst (2) pairs_loop.simps) simp
        next
          case (Inr r4)
          obtain nqy qty2 where pk2: "peek qty1 = Inr (nqy, qty2)" using Inr by (cases r4) auto
          show ?thesis
          proof (cases "\<exists>a b. npx = Some a \<and> nqy = Some b \<and> e_rep a \<noteq> 0 \<and> e_rep a = e_rep b")
            case True
            then obtain a b where ab: "npx = Some a" "nqy = Some b"
              and nz: "e_rep a \<noteq> 0" and eq: "\<not> e_rep a \<noteq> e_rep b" by auto
            from "1.IH" [OF t1 refl t2 refl pk1 refl pk2 refl ab nz eq] t1 t2 pk1 pk2 ab nz eq
            show ?thesis
              by (subst pairs_loop.simps, subst (2) pairs_loop.simps)
                 (simp add: push_back_opt_def)
          next
            case False
            with t1 t2 pk1 pk2 show ?thesis
              by (subst pairs_loop.simps, subst (2) pairs_loop.simps)
                 (auto simp: push_back_opt_def split: option.splits)
          qed
        qed
      qed
    qed
  qed
qed

lemma append_pairs_null:
  "append_list_pairs_for_row_typed px qty None None
   = (case append_list_pairs_for_row_typed px qty out_px out_qty of
        Inl x \<Rightarrow> Inl x | Inr (n, p, q, o1, o2) \<Rightarrow> Inr (n, p, q, None, None))"
  by (auto simp: append_list_pairs_for_row_typed_def pairs_loop_null [of _ _ _ out_px out_qty]
           split: sum.splits prod.splits option.splits)

lemma append_leaf_null_out:
  "append_list_from_leaf_for_row leaf None = Inr (n, l, out) \<Longrightarrow> out = None"
  using append_leaf_null [of leaf None] by (auto split: sum.splits)

lemma append_pairs_null_out:
  "append_list_pairs_for_row_typed px qty None None = Inr (n, p, q, o1, o2)
   \<Longrightarrow> o1 = None \<and> o2 = None"
  using append_pairs_null [of px qty None None] by (auto split: sum.splits)



subsection \<open>What a call of next returns\<close>

lemma ensure_open_Opened_fields:
  assumes "ensure_open dsk st = Opened fs st1"
  shows "m_sel st1 = m_sel st" "m_start_ns st1 = m_start_ns st" "m_end_ns st1 = m_end_ns st"
        "m_files st1 = m_files st" "m_fs st1 = Some fs" "m_bufs st1 = m_bufs st"
        "m_file_idx st1 = m_file_idx st" "m_cerr st1 = m_cerr st"
  using assms
  by (auto simp: ensure_open_def split: option.splits if_splits sum.splits)

lemma ensure_open_OpenFailed_fields:
  assumes "ensure_open dsk st = OpenFailed st1"
  shows "m_sel st1 = m_sel st" "m_start_ns st1 = m_start_ns st" "m_end_ns st1 = m_end_ns st"
        "m_files st1 = m_files st" "m_fs st1 = None" "m_bufs st1 = m_bufs st"
        "m_file_idx st1 = m_file_idx st + 1"
  using assms
  by (auto simp: ensure_open_def split: option.splits if_splits sum.splits)

lemma ensure_open_Exhausted:
  "ensure_open dsk st = Exhausted \<longleftrightarrow> m_fs st = None \<and> m_file_idx st \<ge> length (m_files st)"
  by (auto simp: ensure_open_def split: option.splits if_splits sum.splits)

lemma read_failed_fields [simp]:
  "m_sel (read_failed st e) = m_sel st" "m_start_ns (read_failed st e) = m_start_ns st"
  "m_end_ns (read_failed st e) = m_end_ns st" "m_files (read_failed st e) = m_files st"
  "m_fs (read_failed st e) = None" "m_bufs (read_failed st e) = m_bufs st"
  "m_file_idx (read_failed st e) = m_file_idx st + 1"
  by (simp_all add: read_failed_def)

lemma file_done_fields [simp]:
  "m_sel (file_done st b) = m_sel st" "m_start_ns (file_done st b) = m_start_ns st"
  "m_end_ns (file_done st b) = m_end_ns st" "m_files (file_done st b) = m_files st"
  "m_fs (file_done st b) = None" "m_bufs (file_done st b) = b"
  "m_file_idx (file_done st b) = m_file_idx st + 1" "m_cerr (file_done st b) = m_cerr st"
  by (simp_all add: file_done_def)

lemma delta_next_True:
  assumes "delta_next dsk st out = (True, view, st')"
  shows "\<exists>fs b fs1.
           delta_next_rg (m_start_ns st) (m_end_ns st) (m_sel st) fs b
             = Inr (True, fs1, m_bufs st') \<and>
           m_fs st' = Some fs1 \<and>
           view = delta_view (m_sel st) (m_bufs st') (m_cur_file_base st') \<and>
           m_sel st' = m_sel st \<and> m_start_ns st' = m_start_ns st \<and>
           m_end_ns st' = m_end_ns st \<and> m_files st' = m_files st"
  using assms
proof (induction dsk st out rule: delta_next.induct)
  case (1 dsk st out)
  show ?case
  proof (cases "ensure_open dsk st")
    case Exhausted
    with "1.prems" show ?thesis by (subst (asm) delta_next.simps) simp
  next
    case (OpenFailed st1)
    with "1.prems" have "delta_next dsk st1 out = (True, view, st')"
      by (subst (asm) delta_next.simps) simp
    from "1.IH"(1) [OF OpenFailed this] ensure_open_OpenFailed_fields [OF OpenFailed]
    show ?thesis by simp
  next
    case (Opened fs st1)
    note f = ensure_open_Opened_fields [OF Opened]
    let ?r = "delta_next_rg (m_start_ns st1) (m_end_ns st1) (m_sel st1) fs (m_bufs st1)"
    show ?thesis
    proof (cases ?r)
      case (Inl e)
      with "1.prems" Opened have "delta_next dsk (read_failed st1 e) out = (True, view, st')"
        by (subst (asm) delta_next.simps) simp
      from "1.IH"(2) [OF Opened Inl this] f show ?thesis by simp
    next
      case (Inr r)
      obtain ok fs1 b1 where r: "r = (ok, fs1, b1)" by (cases r)
      show ?thesis
      proof (cases ok)
        case False
        with "1.prems" Opened Inr r
        have "delta_next dsk (file_done st1 b1) out = (True, view, st')"
          by (subst (asm) delta_next.simps) simp
        from "1.IH"(3) [OF Opened Inr r [symmetric] refl _ this] False f show ?thesis by simp
      next
        case True
        with Inr r have rg: "?r = Inr (True, fs1, b1)" by simp
        from delta_next_rg_True [OF rg] have ne: "d_ts b1 \<noteq> []" .
        with "1.prems" Opened Inr r True
        have "view = delta_view (m_sel st1) b1 (m_cur_file_base st1)"
             "st' = st1\<lparr>m_fs := Some fs1, m_bufs := b1\<rparr>"
          by (subst (asm) delta_next.simps, simp)+
        with rg f show ?thesis by auto
      qed
    qed
  qed
qed

lemma delta_next_False:
  assumes "delta_next dsk st out = (False, out', st')"
  shows "out' = out \<and> m_fs st' = None \<and> m_file_idx st' \<ge> length (m_files st')"
  using assms
proof (induction dsk st out rule: delta_next.induct)
  case (1 dsk st out)
  show ?case
  proof (cases "ensure_open dsk st")
    case Exhausted
    with "1.prems" have "out' = out" "st' = st" by (subst (asm) delta_next.simps, simp)+
    with Exhausted show ?thesis by (simp add: ensure_open_Exhausted)
  next
    case (OpenFailed st1)
    with "1.prems" have "delta_next dsk st1 out = (False, out', st')"
      by (subst (asm) delta_next.simps) simp
    from "1.IH"(1) [OF OpenFailed this] show ?thesis .
  next
    case (Opened fs st1)
    let ?r = "delta_next_rg (m_start_ns st1) (m_end_ns st1) (m_sel st1) fs (m_bufs st1)"
    show ?thesis
    proof (cases ?r)
      case (Inl e)
      with "1.prems" Opened have "delta_next dsk (read_failed st1 e) out = (False, out', st')"
        by (subst (asm) delta_next.simps) simp
      from "1.IH"(2) [OF Opened Inl this] show ?thesis .
    next
      case (Inr r)
      obtain ok fs1 b1 where r: "r = (ok, fs1, b1)" by (cases r)
      show ?thesis
      proof (cases ok)
        case False
        with "1.prems" Opened Inr r
        have "delta_next dsk (file_done st1 b1) out = (False, out', st')"
          by (subst (asm) delta_next.simps) simp
        from "1.IH"(3) [OF Opened Inr r [symmetric] refl _ this] False show ?thesis by simp
      next
        case True
        with Inr r have rg: "?r = Inr (True, fs1, b1)" by simp
        from delta_next_rg_True [OF rg] have ne: "d_ts b1 \<noteq> []" .
        with "1.prems" Opened Inr r True show ?thesis
          by (subst (asm) delta_next.simps) simp
      qed
    qed
  qed
qed

lemma top_next_True:
  assumes "top_next dsk st out = (True, view, st')"
  shows "\<exists>fs b fs1.
           top_next_rg (m_start_ns st) (m_end_ns st) (m_sel st) fs b
             = Inr (True, fs1, m_bufs st') \<and>
           m_fs st' = Some fs1 \<and>
           view = top_view (m_sel st) (m_bufs st') (m_cur_file_base st') \<and>
           m_sel st' = m_sel st \<and> m_start_ns st' = m_start_ns st \<and>
           m_end_ns st' = m_end_ns st \<and> m_files st' = m_files st"
  using assms
proof (induction dsk st out rule: top_next.induct)
  case (1 dsk st out)
  show ?case
  proof (cases "ensure_open dsk st")
    case Exhausted
    with "1.prems" show ?thesis by (subst (asm) top_next.simps) simp
  next
    case (OpenFailed st1)
    with "1.prems" have "top_next dsk st1 out = (True, view, st')"
      by (subst (asm) top_next.simps) simp
    from "1.IH"(1) [OF OpenFailed this] ensure_open_OpenFailed_fields [OF OpenFailed]
    show ?thesis by simp
  next
    case (Opened fs st1)
    note f = ensure_open_Opened_fields [OF Opened]
    let ?r = "top_next_rg (m_start_ns st1) (m_end_ns st1) (m_sel st1) fs (m_bufs st1)"
    show ?thesis
    proof (cases ?r)
      case (Inl e)
      with "1.prems" Opened have "top_next dsk (read_failed st1 e) out = (True, view, st')"
        by (subst (asm) top_next.simps) simp
      from "1.IH"(2) [OF Opened Inl this] f show ?thesis by simp
    next
      case (Inr r)
      obtain ok fs1 b1 where r: "r = (ok, fs1, b1)" by (cases r)
      show ?thesis
      proof (cases ok)
        case False
        with "1.prems" Opened Inr r
        have "top_next dsk (file_done st1 b1) out = (True, view, st')"
          by (subst (asm) top_next.simps) simp
        from "1.IH"(3) [OF Opened Inr r [symmetric] refl _ this] False f show ?thesis by simp
      next
        case True
        with Inr r have rg: "?r = Inr (True, fs1, b1)" by simp
        from top_next_rg_True [OF rg] have ne: "t_ts b1 \<noteq> []" .
        with "1.prems" Opened Inr r True
        have "view = top_view (m_sel st1) b1 (m_cur_file_base st1)"
             "st' = st1\<lparr>m_fs := Some fs1, m_bufs := b1\<rparr>"
          by (subst (asm) top_next.simps, simp)+
        with rg f show ?thesis by auto
      qed
    qed
  qed
qed

lemma top_next_False:
  assumes "top_next dsk st out = (False, out', st')"
  shows "out' = out \<and> m_fs st' = None \<and> m_file_idx st' \<ge> length (m_files st')"
  using assms
proof (induction dsk st out rule: top_next.induct)
  case (1 dsk st out)
  show ?case
  proof (cases "ensure_open dsk st")
    case Exhausted
    with "1.prems" have "out' = out" "st' = st" by (subst (asm) top_next.simps, simp)+
    with Exhausted show ?thesis by (simp add: ensure_open_Exhausted)
  next
    case (OpenFailed st1)
    with "1.prems" have "top_next dsk st1 out = (False, out', st')"
      by (subst (asm) top_next.simps) simp
    from "1.IH"(1) [OF OpenFailed this] show ?thesis .
  next
    case (Opened fs st1)
    let ?r = "top_next_rg (m_start_ns st1) (m_end_ns st1) (m_sel st1) fs (m_bufs st1)"
    show ?thesis
    proof (cases ?r)
      case (Inl e)
      with "1.prems" Opened have "top_next dsk (read_failed st1 e) out = (False, out', st')"
        by (subst (asm) top_next.simps) simp
      from "1.IH"(2) [OF Opened Inl this] show ?thesis .
    next
      case (Inr r)
      obtain ok fs1 b1 where r: "r = (ok, fs1, b1)" by (cases r)
      show ?thesis
      proof (cases ok)
        case False
        with "1.prems" Opened Inr r
        have "top_next dsk (file_done st1 b1) out = (False, out', st')"
          by (subst (asm) top_next.simps) simp
        from "1.IH"(3) [OF Opened Inr r [symmetric] refl _ this] False show ?thesis by simp
      next
        case True
        with Inr r have rg: "?r = Inr (True, fs1, b1)" by simp
        from top_next_rg_True [OF rg] have ne: "t_ts b1 \<noteq> []" .
        with "1.prems" Opened Inr r True show ?thesis
          by (subst (asm) top_next.simps) simp
      qed
    qed
  qed
qed

lemma trade_next_True:
  assumes "trade_next dsk st out = (True, view, st')"
  shows "\<exists>fs b fs1.
           trade_next_rg (m_start_ns st) (m_end_ns st) (m_sel st) fs b
             = Inr (True, fs1, m_bufs st') \<and>
           m_fs st' = Some fs1 \<and>
           view = trade_view (m_sel st) (m_bufs st') (m_cur_file_base st') \<and>
           m_sel st' = m_sel st \<and> m_start_ns st' = m_start_ns st \<and>
           m_end_ns st' = m_end_ns st \<and> m_files st' = m_files st"
  using assms
proof (induction dsk st out rule: trade_next.induct)
  case (1 dsk st out)
  show ?case
  proof (cases "ensure_open dsk st")
    case Exhausted
    with "1.prems" show ?thesis by (subst (asm) trade_next.simps) simp
  next
    case (OpenFailed st1)
    with "1.prems" have "trade_next dsk st1 out = (True, view, st')"
      by (subst (asm) trade_next.simps) simp
    from "1.IH"(1) [OF OpenFailed this] ensure_open_OpenFailed_fields [OF OpenFailed]
    show ?thesis by simp
  next
    case (Opened fs st1)
    note f = ensure_open_Opened_fields [OF Opened]
    let ?r = "trade_next_rg (m_start_ns st1) (m_end_ns st1) (m_sel st1) fs (m_bufs st1)"
    show ?thesis
    proof (cases ?r)
      case (Inl e)
      with "1.prems" Opened have "trade_next dsk (read_failed st1 e) out = (True, view, st')"
        by (subst (asm) trade_next.simps) simp
      from "1.IH"(2) [OF Opened Inl this] f show ?thesis by simp
    next
      case (Inr r)
      obtain ok fs1 b1 where r: "r = (ok, fs1, b1)" by (cases r)
      show ?thesis
      proof (cases ok)
        case False
        with "1.prems" Opened Inr r
        have "trade_next dsk (file_done st1 b1) out = (True, view, st')"
          by (subst (asm) trade_next.simps) simp
        from "1.IH"(3) [OF Opened Inr r [symmetric] refl _ this] False f show ?thesis by simp
      next
        case True
        with Inr r have rg: "?r = Inr (True, fs1, b1)" by simp
        from trade_next_rg_True [OF rg] have ne: "tr_ts b1 \<noteq> []" .
        with "1.prems" Opened Inr r True
        have "view = trade_view (m_sel st1) b1 (m_cur_file_base st1)"
             "st' = st1\<lparr>m_fs := Some fs1, m_bufs := b1\<rparr>"
          by (subst (asm) trade_next.simps, simp)+
        with rg f show ?thesis by auto
      qed
    qed
  qed
qed

lemma trade_next_False:
  assumes "trade_next dsk st out = (False, out', st')"
  shows "out' = out \<and> m_fs st' = None \<and> m_file_idx st' \<ge> length (m_files st')"
  using assms
proof (induction dsk st out rule: trade_next.induct)
  case (1 dsk st out)
  show ?case
  proof (cases "ensure_open dsk st")
    case Exhausted
    with "1.prems" have "out' = out" "st' = st" by (subst (asm) trade_next.simps, simp)+
    with Exhausted show ?thesis by (simp add: ensure_open_Exhausted)
  next
    case (OpenFailed st1)
    with "1.prems" have "trade_next dsk st1 out = (False, out', st')"
      by (subst (asm) trade_next.simps) simp
    from "1.IH"(1) [OF OpenFailed this] show ?thesis .
  next
    case (Opened fs st1)
    let ?r = "trade_next_rg (m_start_ns st1) (m_end_ns st1) (m_sel st1) fs (m_bufs st1)"
    show ?thesis
    proof (cases ?r)
      case (Inl e)
      with "1.prems" Opened have "trade_next dsk (read_failed st1 e) out = (False, out', st')"
        by (subst (asm) trade_next.simps) simp
      from "1.IH"(2) [OF Opened Inl this] show ?thesis .
    next
      case (Inr r)
      obtain ok fs1 b1 where r: "r = (ok, fs1, b1)" by (cases r)
      show ?thesis
      proof (cases ok)
        case False
        with "1.prems" Opened Inr r
        have "trade_next dsk (file_done st1 b1) out = (False, out', st')"
          by (subst (asm) trade_next.simps) simp
        from "1.IH"(3) [OF Opened Inr r [symmetric] refl _ this] False show ?thesis by simp
      next
        case True
        with Inr r have rg: "?r = Inr (True, fs1, b1)" by simp
        from trade_next_rg_True [OF rg] have ne: "tr_ts b1 \<noteq> []" .
        with "1.prems" Opened Inr r True show ?thesis
          by (subst (asm) trade_next.simps) simp
      qed
    qed
  qed
qed

subsection \<open>A row group of the depth streamer, on the entries\<close>

lemma append_leaf_spec:
  assumes "append_list_from_leaf_for_row leaf out_vals = Inr (n, leaf', out')"
  shows "case leaf_row (entries leaf) of
           (row, rest) \<Rightarrow>
             entries leaf' = rest \<and>
             out' = map_option (\<lambda>xs. xs @ map e_value row) out_vals \<and>
             n = of_nat (length row)"
proof (cases "entries leaf")
  case Nil
  from assms obtain p leaf1 where pk: "peek leaf = Inr (p, leaf1)"
    by (auto simp: append_list_from_leaf_for_row_def split: sum.splits)
  from peek_entries [OF pk] Nil have "p = None" "entries leaf1 = []" by simp_all
  with assms pk Nil show ?thesis
    by (cases out_vals) (auto simp: append_list_from_leaf_for_row_def)
next
  case (Cons p rest)
  show ?thesis
  proof (cases "\<not> e_has_value p \<and> e_rep p = 0")
    case True
    from append_leaf_empty_start [OF Cons True, of out_vals] assms Cons True
    show ?thesis by (cases out_vals) auto
  next
    case False
    from append_leaf_nonempty_start [OF Cons False assms] Cons False
    show ?thesis by auto
  qed
qed

lemma pairs_run_le: "pairs_run ps qs \<le> length ps" "pairs_run ps qs \<le> length qs"
proof -
  have "pairs_run ps qs \<le> length (zip ps qs)"
    unfolding pairs_run_def by (rule length_takeWhile_le)
  then show "pairs_run ps qs \<le> length ps" "pairs_run ps qs \<le> length qs" by simp_all
qed

lemma append_pairs_spec:
  assumes "append_list_pairs_for_row_typed px qty out_px out_qty
           = Inr (n, px', qty', out_px', out_qty')"
  shows "case pair_row (entries px) (entries qty) of
           ((rp, rq), ps', qs') \<Rightarrow>
             entries px' = ps' \<and> entries qty' = qs' \<and>
             out_px' = map_option (\<lambda>xs. xs @ map e_value rp) out_px \<and>
             out_qty' = map_option (\<lambda>xs. xs @ map e_value rq) out_qty \<and>
             n = of_nat (length rp) \<and> length rq = length rp"
proof -
  from assms obtain p_peek px1 where pk1: "peek px = Inr (p_peek, px1)"
    by (auto simp: append_list_pairs_for_row_typed_def split: sum.splits)
  from assms pk1 obtain q_peek qty1 where pk2: "peek qty = Inr (q_peek, qty1)"
    by (auto simp: append_list_pairs_for_row_typed_def split: sum.splits)
  note f1 = peek_entries [OF pk1] and f2 = peek_entries [OF pk2]
  show ?thesis
  proof (cases "entries px")
    case Nil
    with f1 have "p_peek = None" by simp
    with assms pk1 pk2 Nil f1 f2 show ?thesis
      by (cases out_px; cases out_qty) (auto simp: append_list_pairs_for_row_typed_def)
  next
    case px: (Cons p ps)
    show ?thesis
    proof (cases "entries qty")
      case Nil
      with f2 have "q_peek = None" by simp
      with assms pk1 pk2 Nil px f1 f2 show ?thesis
        by (cases out_px; cases out_qty)
           (auto simp: append_list_pairs_for_row_typed_def split: option.splits)
    next
      case qty: (Cons q qs)
      from paired_row_assembly_core [OF px qty, of out_px out_qty] assms px qty
           pairs_run_le [of ps qs]
      show ?thesis
        by (cases out_px; cases out_qty) (auto split: if_splits simp: min_absorb2)
    qed
  qed
qed

lemma side_for_row_spec:
  assumes "side_for_row sel_px sel_qty px qty in_range out_px out_qty
           = Inr (added, px', qty', out_px', out_qty')"
      and "sel_px \<longrightarrow> px \<noteq> None" and "sel_qty \<longrightarrow> qty \<noteq> None"
  shows "case side_row sel_px sel_qty (entries_opt px) (entries_opt qty) of
           (r, pxs', qys') \<Rightarrow>
             entries_opt px' = pxs' \<and> entries_opt qty' = qys' \<and>
             added = of_nat (row_count sel_px r) \<and>
             out_px' = (if in_range then out_px @ map e_value (fst r) else out_px) \<and>
             out_qty' = (if in_range then out_qty @ map e_value (snd r) else out_qty) \<and>
             (px' = None \<longleftrightarrow> px = None) \<and> (qty' = None \<longleftrightarrow> qty = None)"
proof -
  consider (both) "sel_px" "sel_qty" | (px) "sel_px" "\<not> sel_qty"
    | (qty) "\<not> sel_px" "sel_qty" | (none) "\<not> sel_px" "\<not> sel_qty" by blast
  then show ?thesis
  proof cases
    case both
    with assms(2,3) obtain p q where pq: "px = Some p" "qty = Some q" by auto
    from assms(1) both pq obtain n p1 q1 o1 o2
      where r: "append_list_pairs_for_row_typed p q
                  (out_ptr in_range out_px) (out_ptr in_range out_qty)
                = Inr (n, p1, q1, o1, o2)"
        and res: "added = n" "px' = Some p1" "qty' = Some q1"
                 "out_px' = deref o1 out_px" "out_qty' = deref o2 out_qty"
      by (auto simp: side_for_row_def bnd_def split: sum.splits)
    from append_pairs_spec [OF r] both pq res show ?thesis
      by (auto simp: side_row_def entries_opt_def row_count_def out_ptr_def deref_def
               split: prod.splits if_splits)
  next
    case px
    with assms(2) obtain p where p: "px = Some p" by auto
    from assms(1) px p obtain n p1 o1
      where r: "append_list_from_leaf_for_row p (out_ptr in_range out_px) = Inr (n, p1, o1)"
        and res: "added = n" "px' = Some p1" "qty' = qty"
                 "out_px' = deref o1 out_px" "out_qty' = out_qty"
      by (auto simp: side_for_row_def bnd_def split: sum.splits)
    from append_leaf_spec [OF r] px p res show ?thesis
      by (auto simp: side_row_def entries_opt_def row_count_def out_ptr_def deref_def
               split: prod.splits if_splits)
  next
    case qty
    with assms(3) obtain q where q: "qty = Some q" by auto
    from assms(1) qty q obtain n q1 o2
      where r: "append_list_from_leaf_for_row q (out_ptr in_range out_qty) = Inr (n, q1, o2)"
        and res: "added = n" "px' = px" "qty' = Some q1"
                 "out_px' = out_px" "out_qty' = deref o2 out_qty"
      by (auto simp: side_for_row_def bnd_def split: sum.splits)
    from append_leaf_spec [OF r] qty q res show ?thesis
      by (auto simp: side_row_def entries_opt_def row_count_def out_ptr_def deref_def
               split: prod.splits if_splits)
  next
    case none
    with assms(1) show ?thesis
      by (auto simp: side_for_row_def side_row_def row_count_def)
  qed
qed

lemma take_entry_value:
  assumes "take_entry c = Inr (e, c1)"
  shows "e_value e = next_value (entries c)" and "entries c1 = drop 1 (entries c)"
  using take_entry_entries [OF assms] by (auto simp: next_value_def Entry0_def)

lemma delta_row_parts:
  assumes "delta_row s e sel cs b = Inr (cs', b')"
  obtains e_ts ts1 e_fid fid1 e_lid lid1 e_evt evt1
          aa apx1 aqty1 apo aqo ba bpx1 bqty1 bpo bqo
  where "take_entry (c_ts cs) = Inr (e_ts, ts1)"
    and "take_selected (dsel_firstId sel) (c_fid cs) = Inr (e_fid, fid1)"
    and "take_selected (dsel_lastId sel) (c_lid cs) = Inr (e_lid, lid1)"
    and "take_selected (dsel_eventTime sel) (c_evt cs) = Inr (e_evt, evt1)"
    and "side_for_row (dsel_ask_px sel) (dsel_ask_qty sel) (c_apx cs) (c_aqty cs)
           (e_value e_ts \<ge> s \<and> e_value e_ts < e) (d_ask_px b) (d_ask_qty b)
         = Inr (aa, apx1, aqty1, apo, aqo)"
    and "side_for_row (dsel_bid_px sel) (dsel_bid_qty sel) (c_bpx cs) (c_bqty cs)
           (e_value e_ts \<ge> s \<and> e_value e_ts < e) (d_bid_px b) (d_bid_qty b)
         = Inr (ba, bpx1, bqty1, bpo, bqo)"
    and "cs' = \<lparr>c_ts = ts1, c_fid = fid1, c_lid = lid1, c_evt = evt1,
               c_apx = apx1, c_aqty = aqty1, c_bpx = bpx1, c_bqty = bqty1\<rparr>"
    and "b' = (if e_value e_ts \<ge> s \<and> e_value e_ts < e
               then b\<lparr>d_ask_px := apo, d_ask_qty := aqo, d_bid_px := bpo, d_bid_qty := bqo,
                      d_ts := d_ts b @ [e_value e_ts],
                      d_fid := push_if (dsel_firstId sel) (d_fid b) (e_value e_fid),
                      d_lid := push_if (dsel_lastId sel) (d_lid b) (e_value e_lid),
                      d_evt := push_if (dsel_eventTime sel) (d_evt b) (e_value e_evt),
                      d_ask_off := push_offset (dsel_ask_px sel \<or> dsel_ask_qty sel)
                                     (d_ask_off b) aa,
                      d_bid_off := push_offset (dsel_bid_px sel \<or> dsel_bid_qty sel)
                                     (d_bid_off b) ba\<rparr>
               else b\<lparr>d_ask_px := apo, d_ask_qty := aqo, d_bid_px := bpo, d_bid_qty := bqo\<rparr>)"
proof -
  from assms obtain e_ts ts1 where t: "take_entry (c_ts cs) = Inr (e_ts, ts1)"
    by (auto simp: delta_row_def bnd_def split: sum.splits)
  from assms t obtain e_fid fid1
    where f: "take_selected (dsel_firstId sel) (c_fid cs) = Inr (e_fid, fid1)"
    by (auto simp: delta_row_def bnd_def split: sum.splits)
  from assms t f obtain e_lid lid1
    where l: "take_selected (dsel_lastId sel) (c_lid cs) = Inr (e_lid, lid1)"
    by (auto simp: delta_row_def bnd_def split: sum.splits)
  from assms t f l obtain e_evt evt1
    where ev: "take_selected (dsel_eventTime sel) (c_evt cs) = Inr (e_evt, evt1)"
    by (auto simp: delta_row_def bnd_def split: sum.splits)
  let ?ir = "e_value e_ts \<ge> s \<and> e_value e_ts < e"
  from assms t f l ev obtain aa apx1 aqty1 apo aqo
    where A: "side_for_row (dsel_ask_px sel) (dsel_ask_qty sel) (c_apx cs) (c_aqty cs)
                ?ir (d_ask_px b) (d_ask_qty b) = Inr (aa, apx1, aqty1, apo, aqo)"
    by (simp add: delta_row_def bnd_def Let_def split: sum.splits) auto
  from assms t f l ev A obtain ba bpx1 bqty1 bpo bqo
    where B: "side_for_row (dsel_bid_px sel) (dsel_bid_qty sel) (c_bpx cs) (c_bqty cs)
                ?ir (d_bid_px b) (d_bid_qty b) = Inr (ba, bpx1, bqty1, bpo, bqo)"
    by (simp add: delta_row_def bnd_def Let_def split: sum.splits) auto
  from assms t f l ev A B
  have "cs' = \<lparr>c_ts = ts1, c_fid = fid1, c_lid = lid1, c_evt = evt1,
               c_apx = apx1, c_aqty = aqty1, c_bpx = bpx1, c_bqty = bqty1\<rparr>"
    by (simp add: delta_row_def bnd_def Let_def split: if_splits)
  moreover from assms t f l ev A B
  have "b' = (if ?ir
               then b\<lparr>d_ask_px := apo, d_ask_qty := aqo, d_bid_px := bpo, d_bid_qty := bqo,
                      d_ts := d_ts b @ [e_value e_ts],
                      d_fid := push_if (dsel_firstId sel) (d_fid b) (e_value e_fid),
                      d_lid := push_if (dsel_lastId sel) (d_lid b) (e_value e_lid),
                      d_evt := push_if (dsel_eventTime sel) (d_evt b) (e_value e_evt),
                      d_ask_off := push_offset (dsel_ask_px sel \<or> dsel_ask_qty sel)
                                     (d_ask_off b) aa,
                      d_bid_off := push_offset (dsel_bid_px sel \<or> dsel_bid_qty sel)
                                     (d_bid_off b) ba\<rparr>
               else b\<lparr>d_ask_px := apo, d_ask_qty := aqo, d_bid_px := bpo, d_bid_qty := bqo\<rparr>)"
    by (cases "?ir") (auto simp: delta_row_def bnd_def Let_def)
  ultimately show ?thesis using that t f l ev A B by blast
qed

lemma delta_row_ask:
  assumes "delta_row s e sel cs b = Inr (cs', b')" and "engaged sel cs"
  shows "case side_row (dsel_ask_px sel) (dsel_ask_qty sel)
                (entries_opt (c_apx cs)) (entries_opt (c_aqty cs)) of
           (r, pxs', qys') \<Rightarrow>
             entries_opt (c_apx cs') = pxs' \<and> entries_opt (c_aqty cs') = qys' \<and>
             d_ask_px b' = d_ask_px b @
               (if in_window s e (next_value (entries (c_ts cs)))
                then map e_value (fst r) else []) \<and>
             d_ask_qty b' = d_ask_qty b @
               (if in_window s e (next_value (entries (c_ts cs)))
                then map e_value (snd r) else []) \<and>
             d_ask_off b' =
               (if in_window s e (next_value (entries (c_ts cs))) \<and>
                   (dsel_ask_px sel \<or> dsel_ask_qty sel)
                then d_ask_off b @ [last (d_ask_off b) + of_nat (row_count (dsel_ask_px sel) r)]
                else d_ask_off b)"
proof -
  from assms(1) obtain e_ts ts1 e_fid fid1 e_lid lid1 e_evt evt1
          aa apx1 aqty1 apo aqo ba bpx1 bqty1 bpo bqo
  where t: "take_entry (c_ts cs) = Inr (e_ts, ts1)"
    and "take_selected (dsel_firstId sel) (c_fid cs) = Inr (e_fid, fid1)"
    and "take_selected (dsel_lastId sel) (c_lid cs) = Inr (e_lid, lid1)"
    and "take_selected (dsel_eventTime sel) (c_evt cs) = Inr (e_evt, evt1)"
    and A: "side_for_row (dsel_ask_px sel) (dsel_ask_qty sel) (c_apx cs) (c_aqty cs)
           (e_value e_ts \<ge> s \<and> e_value e_ts < e) (d_ask_px b) (d_ask_qty b)
         = Inr (aa, apx1, aqty1, apo, aqo)"
    and B: "side_for_row (dsel_bid_px sel) (dsel_bid_qty sel) (c_bpx cs) (c_bqty cs)
           (e_value e_ts \<ge> s \<and> e_value e_ts < e) (d_bid_px b) (d_bid_qty b)
         = Inr (ba, bpx1, bqty1, bpo, bqo)"
    and cs': "cs' = \<lparr>c_ts = ts1, c_fid = fid1, c_lid = lid1, c_evt = evt1,
               c_apx = apx1, c_aqty = aqty1, c_bpx = bpx1, c_bqty = bqty1\<rparr>"
    and b': "b' = (if e_value e_ts \<ge> s \<and> e_value e_ts < e
               then b\<lparr>d_ask_px := apo, d_ask_qty := aqo, d_bid_px := bpo, d_bid_qty := bqo,
                      d_ts := d_ts b @ [e_value e_ts],
                      d_fid := push_if (dsel_firstId sel) (d_fid b) (e_value e_fid),
                      d_lid := push_if (dsel_lastId sel) (d_lid b) (e_value e_lid),
                      d_evt := push_if (dsel_eventTime sel) (d_evt b) (e_value e_evt),
                      d_ask_off := push_offset (dsel_ask_px sel \<or> dsel_ask_qty sel)
                                     (d_ask_off b) aa,
                      d_bid_off := push_offset (dsel_bid_px sel \<or> dsel_bid_qty sel)
                                     (d_bid_off b) ba\<rparr>
               else b\<lparr>d_ask_px := apo, d_ask_qty := aqo, d_bid_px := bpo, d_bid_qty := bqo\<rparr>)"
    by (rule delta_row_parts)
  from take_entry_value(1) [OF t]
  have w: "in_window s e (next_value (entries (c_ts cs)))
           = (e_value e_ts \<ge> s \<and> e_value e_ts < e)"
    by (simp add: in_window_def)
  from assms(2) have en: "dsel_ask_px sel \<longrightarrow> c_apx cs \<noteq> None"
                         "dsel_ask_qty sel \<longrightarrow> c_aqty cs \<noteq> None"
    by (simp_all add: engaged_def)
  obtain r pxs' qys'
    where sr: "side_row (dsel_ask_px sel) (dsel_ask_qty sel)
                 (entries_opt (c_apx cs)) (entries_opt (c_aqty cs)) = (r, pxs', qys')"
    by (rule prod_cases3)
  from side_for_row_spec [OF A en] sr
  have sp: "entries_opt apx1 = pxs'" "entries_opt aqty1 = qys'"
           "aa = of_nat (row_count (dsel_ask_px sel) r)"
           "apo = (if e_value e_ts \<ge> s \<and> e_value e_ts < e
                   then d_ask_px b @ map e_value (fst r) else d_ask_px b)"
           "aqo = (if e_value e_ts \<ge> s \<and> e_value e_ts < e
                   then d_ask_qty b @ map e_value (snd r) else d_ask_qty b)"
    by simp_all
  show ?thesis
  proof (cases "e_value e_ts \<ge> s \<and> e_value e_ts < e")
    case True
    with sr sp cs' b' w show ?thesis by (simp add: push_offset_def)
  next
    case False
    with sr sp cs' b' w show ?thesis by simp
  qed
qed

lemma delta_row_bid:
  assumes "delta_row s e sel cs b = Inr (cs', b')" and "engaged sel cs"
  shows "case side_row (dsel_bid_px sel) (dsel_bid_qty sel)
                (entries_opt (c_bpx cs)) (entries_opt (c_bqty cs)) of
           (r, pxs', qys') \<Rightarrow>
             entries_opt (c_bpx cs') = pxs' \<and> entries_opt (c_bqty cs') = qys' \<and>
             d_bid_px b' = d_bid_px b @
               (if in_window s e (next_value (entries (c_ts cs)))
                then map e_value (fst r) else []) \<and>
             d_bid_qty b' = d_bid_qty b @
               (if in_window s e (next_value (entries (c_ts cs)))
                then map e_value (snd r) else []) \<and>
             d_bid_off b' =
               (if in_window s e (next_value (entries (c_ts cs))) \<and>
                   (dsel_bid_px sel \<or> dsel_bid_qty sel)
                then d_bid_off b @ [last (d_bid_off b) + of_nat (row_count (dsel_bid_px sel) r)]
                else d_bid_off b)"
proof -
  from assms(1) obtain e_ts ts1 e_fid fid1 e_lid lid1 e_evt evt1
          aa apx1 aqty1 apo aqo ba bpx1 bqty1 bpo bqo
  where t: "take_entry (c_ts cs) = Inr (e_ts, ts1)"
    and "take_selected (dsel_firstId sel) (c_fid cs) = Inr (e_fid, fid1)"
    and "take_selected (dsel_lastId sel) (c_lid cs) = Inr (e_lid, lid1)"
    and "take_selected (dsel_eventTime sel) (c_evt cs) = Inr (e_evt, evt1)"
    and A: "side_for_row (dsel_ask_px sel) (dsel_ask_qty sel) (c_apx cs) (c_aqty cs)
           (e_value e_ts \<ge> s \<and> e_value e_ts < e) (d_ask_px b) (d_ask_qty b)
         = Inr (aa, apx1, aqty1, apo, aqo)"
    and B: "side_for_row (dsel_bid_px sel) (dsel_bid_qty sel) (c_bpx cs) (c_bqty cs)
           (e_value e_ts \<ge> s \<and> e_value e_ts < e) (d_bid_px b) (d_bid_qty b)
         = Inr (ba, bpx1, bqty1, bpo, bqo)"
    and cs': "cs' = \<lparr>c_ts = ts1, c_fid = fid1, c_lid = lid1, c_evt = evt1,
               c_apx = apx1, c_aqty = aqty1, c_bpx = bpx1, c_bqty = bqty1\<rparr>"
    and b': "b' = (if e_value e_ts \<ge> s \<and> e_value e_ts < e
               then b\<lparr>d_ask_px := apo, d_ask_qty := aqo, d_bid_px := bpo, d_bid_qty := bqo,
                      d_ts := d_ts b @ [e_value e_ts],
                      d_fid := push_if (dsel_firstId sel) (d_fid b) (e_value e_fid),
                      d_lid := push_if (dsel_lastId sel) (d_lid b) (e_value e_lid),
                      d_evt := push_if (dsel_eventTime sel) (d_evt b) (e_value e_evt),
                      d_ask_off := push_offset (dsel_ask_px sel \<or> dsel_ask_qty sel)
                                     (d_ask_off b) aa,
                      d_bid_off := push_offset (dsel_bid_px sel \<or> dsel_bid_qty sel)
                                     (d_bid_off b) ba\<rparr>
               else b\<lparr>d_ask_px := apo, d_ask_qty := aqo, d_bid_px := bpo, d_bid_qty := bqo\<rparr>)"
    by (rule delta_row_parts)
  from take_entry_value(1) [OF t]
  have w: "in_window s e (next_value (entries (c_ts cs)))
           = (e_value e_ts \<ge> s \<and> e_value e_ts < e)"
    by (simp add: in_window_def)
  from assms(2) have en: "dsel_bid_px sel \<longrightarrow> c_bpx cs \<noteq> None"
                         "dsel_bid_qty sel \<longrightarrow> c_bqty cs \<noteq> None"
    by (simp_all add: engaged_def)
  obtain r pxs' qys'
    where sr: "side_row (dsel_bid_px sel) (dsel_bid_qty sel)
                 (entries_opt (c_bpx cs)) (entries_opt (c_bqty cs)) = (r, pxs', qys')"
    by (rule prod_cases3)
  from side_for_row_spec [OF B en] sr
  have sp: "entries_opt bpx1 = pxs'" "entries_opt bqty1 = qys'"
           "ba = of_nat (row_count (dsel_bid_px sel) r)"
           "bpo = (if e_value e_ts \<ge> s \<and> e_value e_ts < e
                   then d_bid_px b @ map e_value (fst r) else d_bid_px b)"
           "bqo = (if e_value e_ts \<ge> s \<and> e_value e_ts < e
                   then d_bid_qty b @ map e_value (snd r) else d_bid_qty b)"
    by simp_all
  show ?thesis
  proof (cases "e_value e_ts \<ge> s \<and> e_value e_ts < e")
    case True
    with sr sp cs' b' w show ?thesis by (simp add: push_offset_def)
  next
    case False
    with sr sp cs' b' w show ?thesis by simp
  qed
qed

lemma delta_row_ts:
  assumes "delta_row s e sel cs b = Inr (cs', b')" and "engaged sel cs"
  shows "entries (c_ts cs') = drop 1 (entries (c_ts cs))"
    and "engaged sel cs'"
    and "d_ts b' = d_ts b @ (if in_window s e (next_value (entries (c_ts cs)))
                             then [next_value (entries (c_ts cs))] else [])"
proof -
  from assms(1) obtain e_ts ts1 e_fid fid1 e_lid lid1 e_evt evt1
          aa apx1 aqty1 apo aqo ba bpx1 bqty1 bpo bqo
  where t: "take_entry (c_ts cs) = Inr (e_ts, ts1)"
    and "take_selected (dsel_firstId sel) (c_fid cs) = Inr (e_fid, fid1)"
    and "take_selected (dsel_lastId sel) (c_lid cs) = Inr (e_lid, lid1)"
    and "take_selected (dsel_eventTime sel) (c_evt cs) = Inr (e_evt, evt1)"
    and A: "side_for_row (dsel_ask_px sel) (dsel_ask_qty sel) (c_apx cs) (c_aqty cs)
           (e_value e_ts \<ge> s \<and> e_value e_ts < e) (d_ask_px b) (d_ask_qty b)
         = Inr (aa, apx1, aqty1, apo, aqo)"
    and B: "side_for_row (dsel_bid_px sel) (dsel_bid_qty sel) (c_bpx cs) (c_bqty cs)
           (e_value e_ts \<ge> s \<and> e_value e_ts < e) (d_bid_px b) (d_bid_qty b)
         = Inr (ba, bpx1, bqty1, bpo, bqo)"
    and cs': "cs' = \<lparr>c_ts = ts1, c_fid = fid1, c_lid = lid1, c_evt = evt1,
               c_apx = apx1, c_aqty = aqty1, c_bpx = bpx1, c_bqty = bqty1\<rparr>"
    and b': "b' = (if e_value e_ts \<ge> s \<and> e_value e_ts < e
               then b\<lparr>d_ask_px := apo, d_ask_qty := aqo, d_bid_px := bpo, d_bid_qty := bqo,
                      d_ts := d_ts b @ [e_value e_ts],
                      d_fid := push_if (dsel_firstId sel) (d_fid b) (e_value e_fid),
                      d_lid := push_if (dsel_lastId sel) (d_lid b) (e_value e_lid),
                      d_evt := push_if (dsel_eventTime sel) (d_evt b) (e_value e_evt),
                      d_ask_off := push_offset (dsel_ask_px sel \<or> dsel_ask_qty sel)
                                     (d_ask_off b) aa,
                      d_bid_off := push_offset (dsel_bid_px sel \<or> dsel_bid_qty sel)
                                     (d_bid_off b) ba\<rparr>
               else b\<lparr>d_ask_px := apo, d_ask_qty := aqo, d_bid_px := bpo, d_bid_qty := bqo\<rparr>)"
    by (rule delta_row_parts)
  note v = take_entry_value [OF t]
  from v(2) cs' show "entries (c_ts cs') = drop 1 (entries (c_ts cs))" by simp
  from assms(2) have en: "dsel_ask_px sel \<longrightarrow> c_apx cs \<noteq> None"
                         "dsel_ask_qty sel \<longrightarrow> c_aqty cs \<noteq> None"
                         "dsel_bid_px sel \<longrightarrow> c_bpx cs \<noteq> None"
                         "dsel_bid_qty sel \<longrightarrow> c_bqty cs \<noteq> None"
    by (simp_all add: engaged_def)
  from side_for_row_spec [OF A en(1,2)]
  have "(apx1 = None \<longleftrightarrow> c_apx cs = None) \<and> (aqty1 = None \<longleftrightarrow> c_aqty cs = None)"
    by (simp split: prod.splits)
  moreover from side_for_row_spec [OF B en(3,4)]
  have "(bpx1 = None \<longleftrightarrow> c_bpx cs = None) \<and> (bqty1 = None \<longleftrightarrow> c_bqty cs = None)"
    by (simp split: prod.splits)
  ultimately show "engaged sel cs'" using cs' en
    by (simp add: engaged_def)
  from v(1) b'
  show "d_ts b' = d_ts b @ (if in_window s e (next_value (entries (c_ts cs)))
                            then [next_value (entries (c_ts cs))] else [])"
    by (cases "e_value e_ts \<ge> s \<and> e_value e_ts < e") (simp_all add: in_window_def)
qed

lemma taken_values_Suc:
  "taken_values (Suc k) es = next_value es # taken_values k (drop 1 es)"
  by (cases es) (simp_all add: taken_values_def next_value_def)

lemma taken_values_0 [simp]: "taken_values 0 es = []"
  by (simp add: taken_values_def)

lemma length_taken_values [simp]: "length (taken_values n es) = n"
  by (simp add: taken_values_def)

lemma delta_rows_ts:
  assumes "delta_rows n s e sel cs b = Inr (cs', b')" and "engaged sel cs"
  shows "d_ts b' = d_ts b @ filter (in_window s e) (row_timestamps n cs)"
  using assms
proof (induction n arbitrary: cs b)
  case 0
  then show ?case by (simp add: row_timestamps_def)
next
  case (Suc k)
  from Suc.prems(1) obtain cs1 b1
    where row: "delta_row s e sel cs b = Inr (cs1, b1)"
      and rest: "delta_rows k s e sel cs1 b1 = Inr (cs', b')"
    by (auto simp: bnd_def split: sum.splits)
  note ts = delta_row_ts [OF row Suc.prems(2)]
  from Suc.IH [OF rest ts(2)] ts(1,3) show ?case
    by (simp add: row_timestamps_def taken_values_Suc)
qed

lemma delta_rows_ask:
  assumes "delta_rows n s e sel cs b = Inr (cs', b')" and "engaged sel cs"
  shows "d_ask_px b' = d_ask_px b @ concat (map (map e_value \<circ> fst) (ask_rows s e sel n cs)) \<and>
         d_ask_qty b' = d_ask_qty b @ concat (map (map e_value \<circ> snd) (ask_rows s e sel n cs)) \<and>
         d_ask_off b' =
           (if dsel_ask_px sel \<or> dsel_ask_qty sel
            then push_offsets (d_ask_off b)
                   (map (row_count (dsel_ask_px sel)) (ask_rows s e sel n cs))
            else d_ask_off b)"
  using assms
proof (induction n arbitrary: cs b)
  case 0
  then show ?case
    by (simp add: ask_rows_def row_timestamps_def taken_values_def push_offsets_def)
next
  case (Suc k)
  from Suc.prems(1) obtain cs1 b1
    where row: "delta_row s e sel cs b = Inr (cs1, b1)"
      and rest: "delta_rows k s e sel cs1 b1 = Inr (cs', b')"
    by (auto simp: bnd_def split: sum.splits)
  note ts = delta_row_ts [OF row Suc.prems(2)]
  obtain r pxs' qys'
    where sr: "side_row (dsel_ask_px sel) (dsel_ask_qty sel)
                 (entries_opt (c_apx cs)) (entries_opt (c_aqty cs)) = (r, pxs', qys')"
    by (rule prod_cases3)
  from delta_row_ask [OF row Suc.prems(2)] sr
  have st: "entries_opt (c_apx cs1) = pxs'" "entries_opt (c_aqty cs1) = qys'"
    "d_ask_px b1 = d_ask_px b @
       (if in_window s e (next_value (entries (c_ts cs))) then map e_value (fst r) else [])"
    "d_ask_qty b1 = d_ask_qty b @
       (if in_window s e (next_value (entries (c_ts cs))) then map e_value (snd r) else [])"
    "d_ask_off b1 =
       (if in_window s e (next_value (entries (c_ts cs))) \<and>
           (dsel_ask_px sel \<or> dsel_ask_qty sel)
        then d_ask_off b @ [last (d_ask_off b) + of_nat (row_count (dsel_ask_px sel) r)]
        else d_ask_off b)"
    by simp_all
  have rows: "ask_rows s e sel (Suc k) cs
              = (if in_window s e (next_value (entries (c_ts cs))) then [r] else [])
                @ ask_rows s e sel k cs1"
    using sr st(1,2) ts(1)
    by (simp add: ask_rows_def row_timestamps_def taken_values_Suc)
  from Suc.IH [OF rest ts(2)] st(3,4,5) rows show ?case
    by (simp add: push_offsets_def)
qed

lemma delta_rows_bid:
  assumes "delta_rows n s e sel cs b = Inr (cs', b')" and "engaged sel cs"
  shows "d_bid_px b' = d_bid_px b @ concat (map (map e_value \<circ> fst) (bid_rows s e sel n cs)) \<and>
         d_bid_qty b' = d_bid_qty b @ concat (map (map e_value \<circ> snd) (bid_rows s e sel n cs)) \<and>
         d_bid_off b' =
           (if dsel_bid_px sel \<or> dsel_bid_qty sel
            then push_offsets (d_bid_off b)
                   (map (row_count (dsel_bid_px sel)) (bid_rows s e sel n cs))
            else d_bid_off b)"
  using assms
proof (induction n arbitrary: cs b)
  case 0
  then show ?case
    by (simp add: bid_rows_def row_timestamps_def taken_values_def push_offsets_def)
next
  case (Suc k)
  from Suc.prems(1) obtain cs1 b1
    where row: "delta_row s e sel cs b = Inr (cs1, b1)"
      and rest: "delta_rows k s e sel cs1 b1 = Inr (cs', b')"
    by (auto simp: bnd_def split: sum.splits)
  note ts = delta_row_ts [OF row Suc.prems(2)]
  obtain r pxs' qys'
    where sr: "side_row (dsel_bid_px sel) (dsel_bid_qty sel)
                 (entries_opt (c_bpx cs)) (entries_opt (c_bqty cs)) = (r, pxs', qys')"
    by (rule prod_cases3)
  from delta_row_bid [OF row Suc.prems(2)] sr
  have st: "entries_opt (c_bpx cs1) = pxs'" "entries_opt (c_bqty cs1) = qys'"
    "d_bid_px b1 = d_bid_px b @
       (if in_window s e (next_value (entries (c_ts cs))) then map e_value (fst r) else [])"
    "d_bid_qty b1 = d_bid_qty b @
       (if in_window s e (next_value (entries (c_ts cs))) then map e_value (snd r) else [])"
    "d_bid_off b1 =
       (if in_window s e (next_value (entries (c_ts cs))) \<and>
           (dsel_bid_px sel \<or> dsel_bid_qty sel)
        then d_bid_off b @ [last (d_bid_off b) + of_nat (row_count (dsel_bid_px sel) r)]
        else d_bid_off b)"
    by simp_all
  have rows: "bid_rows s e sel (Suc k) cs
              = (if in_window s e (next_value (entries (c_ts cs))) then [r] else [])
                @ bid_rows s e sel k cs1"
    using sr st(1,2) ts(1)
    by (simp add: bid_rows_def row_timestamps_def taken_values_Suc)
  from Suc.IH [OF rest ts(2)] st(3,4,5) rows show ?case
    by (simp add: push_offsets_def)
qed

subsection \<open>Offsets\<close>

lemma push_offsets_snoc:
  "push_offsets off (ks @ [k])
   = push_offsets off ks @ [last (push_offsets off ks) + of_nat k]"
  by (simp add: push_offsets_def)

lemma push_offsets_nth:
  "length (push_offsets [0] ks) = Suc (length ks) \<and>
   (\<forall>i \<le> length ks. push_offsets [0] ks ! i = of_nat (sum_list (take i ks)))"
proof (induction ks rule: rev_induct)
  case Nil
  show ?case by (simp add: push_offsets_def)
next
  case (snoc k ks)
  let ?L = "push_offsets [0] ks"
  from snoc have len: "length ?L = Suc (length ks)"
    and nth: "\<And>i. i \<le> length ks \<Longrightarrow> ?L ! i = of_nat (sum_list (take i ks))" by simp_all
  from len have "?L \<noteq> []" by auto
  then have "last ?L = ?L ! length ks" using len by (simp add: last_conv_nth)
  with nth [of "length ks"] have last: "last ?L = of_nat (sum_list ks)" by simp
  have "\<forall>i \<le> length (ks @ [k]).
          push_offsets [0] (ks @ [k]) ! i = of_nat (sum_list (take i (ks @ [k])))"
  proof (intro allI impI)
    fix i assume i: "i \<le> length (ks @ [k])"
    show "push_offsets [0] (ks @ [k]) ! i = of_nat (sum_list (take i (ks @ [k])))"
    proof (cases "i \<le> length ks")
      case True
      with len nth [OF True] show ?thesis
        by (simp add: push_offsets_snoc nth_append)
    next
      case False
      with i have "i = Suc (length ks)" by simp
      with len last show ?thesis
        by (simp add: push_offsets_snoc nth_append)
    qed
  qed
  with len show ?case by (simp add: push_offsets_snoc)
qed

lemma length_push_offsets [simp]: "length (push_offsets [0] ks) = Suc (length ks)"
  using push_offsets_nth [of ks] by simp

lemma push_offsets_first: "push_offsets [0] ks ! 0 = 0"
  using push_offsets_nth [of ks] by simp

lemma push_offsets_step:
  assumes "i < length ks"
  shows "push_offsets [0] ks ! (i + 1) - push_offsets [0] ks ! i = of_nat (ks ! i)"
proof -
  from assms push_offsets_nth [of ks]
  have "push_offsets [0] ks ! (i + 1) = of_nat (sum_list (take (Suc i) ks))"
       "push_offsets [0] ks ! i = of_nat (sum_list (take i ks))" by simp_all
  with assms show ?thesis by (simp add: take_Suc_conv_app_nth)
qed

lemma sum_list_take_mono:
  fixes ks :: "nat list"
  assumes "i \<le> j"
  shows "sum_list (take i ks) \<le> sum_list (take j ks)"
proof -
  from assms have "take j ks = take i ks @ take (j - i) (drop i ks)"
    by (metis le_add_diff_inverse take_add)
  then show ?thesis by simp
qed

lemma sum_list_take_le:
  fixes ks :: "nat list"
  shows "sum_list (take i ks) \<le> sum_list ks"
  using sum_list_take_mono [of i "max i (length ks)" ks] by simp

lemma push_offsets_unat:
  assumes "sum_list ks < 2 ^ 32" and "i \<le> length ks"
  shows "unat (push_offsets [0] ks ! i :: u32) = sum_list (take i ks)"
proof -
  from assms(2) push_offsets_nth [of ks]
  have "push_offsets [0] ks ! i = (of_nat (sum_list (take i ks)) :: u32)" by simp
  moreover from sum_list_take_le [of i ks] assms(1) have "sum_list (take i ks) < 2 ^ 32" by simp
  ultimately show ?thesis by (simp add: unat_of_nat take_bit_nat_eq_self)
qed

lemma push_offsets_sorted:
  assumes "sum_list ks < 2 ^ 32"
  shows "sorted (map unat (push_offsets [0] ks))"
proof -
  have "\<And>i j. i \<le> j \<Longrightarrow> j < Suc (length ks) \<Longrightarrow>
          unat (push_offsets [0] ks ! i) \<le> unat (push_offsets [0] ks ! j)"
    using push_offsets_unat [OF assms] sum_list_take_mono by simp
  then show ?thesis by (simp add: sorted_iff_nth_mono)
qed

lemma push_offsets_unat_step:
  assumes "sum_list ks < 2 ^ 32" and "i < length ks"
  shows "unat (push_offsets [0] ks ! (i + 1)) - unat (push_offsets [0] ks ! i) = ks ! i"
  using push_offsets_unat [OF assms(1), of i] push_offsets_unat [OF assms(1), of "Suc i"] assms(2)
  by (simp add: take_Suc_conv_app_nth)

lemma length_side_rows:
  "length (side_rows sel_px sel_qty ws pxs qys) = length (filter (\<lambda>w. w) ws)"
  by (induction ws arbitrary: pxs qys) (auto split: prod.splits)

lemma length_ask_rows:
  "length (ask_rows s e sel n cs) = length (filter (in_window s e) (row_timestamps n cs))"
  by (simp add: ask_rows_def length_side_rows filter_map o_def)

lemma length_bid_rows:
  "length (bid_rows s e sel n cs) = length (filter (in_window s e) (row_timestamps n cs))"
  by (simp add: bid_rows_def length_side_rows filter_map o_def)

lemma open_selected_engaged:
  "open_selected sel sch rg name msg = Inr c \<Longrightarrow> sel \<Longrightarrow> c \<noteq> None"
  by (auto simp: open_selected_def bnd_def Let_def split: if_splits sum.splits)

lemma delta_open_cursors_engaged:
  assumes "delta_open_cursors sel sch rg = Inr cs"
  shows "engaged sel cs"
proof -
  from assms obtain apx aqty bpx bqty
    where "open_selected (dsel_ask_px sel) sch rg
             ''ask.list.element.px'' ''depth: missing ask px'' = Inr apx"
      and "open_selected (dsel_ask_qty sel) sch rg
             ''ask.list.element.qty'' ''depth: missing ask qty'' = Inr aqty"
      and "open_selected (dsel_bid_px sel) sch rg
             ''bid.list.element.px'' ''depth: missing bid px'' = Inr bpx"
      and "open_selected (dsel_bid_qty sel) sch rg
             ''bid.list.element.qty'' ''depth: missing bid qty'' = Inr bqty"
      and "c_apx cs = apx" "c_aqty cs = aqty" "c_bpx cs = bpx" "c_bqty cs = bqty"
    by (auto simp: delta_open_cursors_def bnd_def Let_def split: if_splits sum.splits)
  then show ?thesis
    by (auto simp: engaged_def dest: open_selected_engaged)
qed

lemma delta_next_rg_batch:
  assumes "delta_next_rg s e sel fs b = Inr (True, fs1, b1)"
  shows "fs_file fs1 = fs_file fs \<and> rg_idx fs < rg_idx fs1 \<and>
         rg_idx fs1 \<le> length (row_groups (fs_file fs)) \<and>
         (\<exists>cs cs1.
            delta_open_cursors sel (schema (fs_file fs))
              (row_groups (fs_file fs) ! (rg_idx fs1 - 1)) = Inr cs \<and>
            delta_rows (num_rows (row_groups (fs_file fs) ! (rg_idx fs1 - 1)))
              s e sel cs (delta_clear sel) = Inr (cs1, b1))"
  using assms
proof (induction s e sel fs b rule: delta_next_rg.induct)
  case (1 s e sel fs b)
  let ?rg = "row_groups (fs_file fs) ! rg_idx fs"
  let ?fs1 = "fs\<lparr>rg_idx := rg_idx fs + 1\<rparr>"
  from "1.prems" have lt: "\<not> rg_idx fs \<ge> length (row_groups (fs_file fs))"
    by (subst (asm) delta_next_rg.simps) (auto split: if_splits)
  from "1.prems" lt obtain cs where cs: "delta_open_cursors sel (schema (fs_file fs)) ?rg = Inr cs"
    by (subst (asm) delta_next_rg.simps) (auto simp: Let_def split: sum.splits)
  from "1.prems" lt cs obtain cs1 b2
    where rows: "delta_rows (num_rows ?rg) s e sel cs (delta_clear sel) = Inr (cs1, b2)"
    by (subst (asm) delta_next_rg.simps) (auto simp: Let_def split: sum.splits)
  show ?case
  proof (cases "d_ts b2 \<noteq> []")
    case True
    with "1.prems" lt cs rows have "b1 = b2" "fs1 = ?fs1"
      by (subst (asm) delta_next_rg.simps, simp add: Let_def)+
    with lt cs rows show ?thesis by auto
  next
    case False
    with "1.prems" lt cs rows have "delta_next_rg s e sel ?fs1 b2 = Inr (True, fs1, b1)"
      by (subst (asm) delta_next_rg.simps) (simp add: Let_def)
    from "1.IH" [OF lt refl refl cs rows refl False this] show ?thesis by auto
  qed
qed

subsection \<open>Batches of the depth reader\<close>

lemma delta_next_batch:
  assumes "delta_next dsk st out = (True, view, st')"
  shows "\<exists>fs cs cs1.
           m_fs st' = Some fs \<and> 0 < rg_idx fs \<and> rg_idx fs \<le> length (row_groups (fs_file fs)) \<and>
           delta_open_cursors (m_sel st) (schema (fs_file fs))
             (row_groups (fs_file fs) ! (rg_idx fs - 1)) = Inr cs \<and>
           delta_rows (num_rows (row_groups (fs_file fs) ! (rg_idx fs - 1)))
             (m_start_ns st) (m_end_ns st) (m_sel st) cs (delta_clear (m_sel st))
             = Inr (cs1, m_bufs st') \<and>
           view = delta_view (m_sel st) (m_bufs st') (m_cur_file_base st')"
proof -
  from delta_next_True [OF assms] obtain fs0 b fs1
    where rg: "delta_next_rg (m_start_ns st) (m_end_ns st) (m_sel st) fs0 b
                 = Inr (True, fs1, m_bufs st')"
      and fs: "m_fs st' = Some fs1"
      and view: "view = delta_view (m_sel st) (m_bufs st') (m_cur_file_base st')"
    by blast
  from delta_next_rg_batch [OF rg] fs view show ?thesis
    by (auto simp del: delta_rows.simps)
qed

text \<open>
  Claim C1. Every batch that \<open>DeltaBatchReader::next\<close> delivers comes from one row group
  \<open>rg\<close> of the open file. Let \<open>cs\<close> be the cursors on its columns, \<open>asks\<close> the
  in-window rows of the ask side read off the entries these cursors deliver, and
  \<open>ks\<close> their numbers of elements. The batch has as many rows as \<open>asks\<close>. If an
  ask column is selected, the ask offsets are \<open>0\<close> followed by the running sums of
  \<open>ks\<close> in 32-bit arithmetic: there are \<open>n + 1\<close> of them, the first is 0, and
  \<open>off[i+1] - off[i]\<close> is the \<open>uint32_t\<close> value of the number of elements of row
  \<open>i\<close>; the selected value arrays hold the elements of the rows one after the
  other. When the rows of the batch have fewer than \<open>2^32\<close> elements together,
  the offsets are non-decreasing and \<open>off[i+1] - off[i]\<close> is the number of
  elements of row \<open>i\<close> itself. The same holds for the bid side.
\<close>

theorem depth_batch_offsets:
  assumes "delta_next dsk st out = (True, view, st')"
  shows "\<exists>fs cs.
           m_fs st' = Some fs \<and> 0 < rg_idx fs \<and> rg_idx fs \<le> length (row_groups (fs_file fs)) \<and>
           delta_open_cursors (m_sel st) (schema (fs_file fs))
             (row_groups (fs_file fs) ! (rg_idx fs - 1)) = Inr cs \<and>
           (let n = num_rows (row_groups (fs_file fs) ! (rg_idx fs - 1));
                asks = ask_rows (m_start_ns st) (m_end_ns st) (m_sel st) n cs;
                ks = map (row_count (dsel_ask_px (m_sel st))) asks;
                bids = bid_rows (m_start_ns st) (m_end_ns st) (m_sel st) n cs;
                js = map (row_count (dsel_bid_px (m_sel st))) bids
            in length asks = dv_n view \<and> length bids = dv_n view \<and>
               dv_ask_px view = data_if (dsel_ask_px (m_sel st))
                                  (concat (map (map e_value \<circ> fst) asks)) \<and>
               dv_ask_qty view = data_if (dsel_ask_qty (m_sel st))
                                   (concat (map (map e_value \<circ> snd) asks)) \<and>
               dv_bid_px view = data_if (dsel_bid_px (m_sel st))
                                  (concat (map (map e_value \<circ> fst) bids)) \<and>
               dv_bid_qty view = data_if (dsel_bid_qty (m_sel st))
                                   (concat (map (map e_value \<circ> snd) bids)) \<and>
               (if dsel_ask_px (m_sel st) \<or> dsel_ask_qty (m_sel st)
                then \<exists>off. dv_ask_off view = Some off \<and> off = push_offsets [0] ks \<and>
                           length off = dv_n view + 1 \<and> off ! 0 = 0 \<and>
                           (\<forall>i < dv_n view. off ! (i + 1) - off ! i = of_nat (ks ! i)) \<and>
                           (sum_list ks < 2 ^ 32 \<longrightarrow>
                              sorted (map unat off) \<and>
                              (\<forall>i < dv_n view. unat (off ! (i + 1)) - unat (off ! i) = ks ! i))
                else dv_ask_off view = None) \<and>
               (if dsel_bid_px (m_sel st) \<or> dsel_bid_qty (m_sel st)
                then \<exists>off. dv_bid_off view = Some off \<and> off = push_offsets [0] js \<and>
                           length off = dv_n view + 1 \<and> off ! 0 = 0 \<and>
                           (\<forall>i < dv_n view. off ! (i + 1) - off ! i = of_nat (js ! i)) \<and>
                           (sum_list js < 2 ^ 32 \<longrightarrow>
                              sorted (map unat off) \<and>
                              (\<forall>i < dv_n view. unat (off ! (i + 1)) - unat (off ! i) = js ! i))
                else dv_bid_off view = None))"
proof -
  let ?sel = "m_sel st" and ?s = "m_start_ns st" and ?e = "m_end_ns st"
  from delta_next_batch [OF assms] obtain fs cs cs1
    where fs: "m_fs st' = Some fs" "0 < rg_idx fs" "rg_idx fs \<le> length (row_groups (fs_file fs))"
      and cs: "delta_open_cursors ?sel (schema (fs_file fs))
                 (row_groups (fs_file fs) ! (rg_idx fs - 1)) = Inr cs"
      and rows: "delta_rows (num_rows (row_groups (fs_file fs) ! (rg_idx fs - 1)))
                   ?s ?e ?sel cs (delta_clear ?sel) = Inr (cs1, m_bufs st')"
      and view: "view = delta_view ?sel (m_bufs st') (m_cur_file_base st')"
    by blast
  let ?n = "num_rows (row_groups (fs_file fs) ! (rg_idx fs - 1))"
  let ?asks = "ask_rows ?s ?e ?sel ?n cs" and ?bids = "bid_rows ?s ?e ?sel ?n cs"
  let ?ks = "map (row_count (dsel_ask_px ?sel)) ?asks"
  let ?js = "map (row_count (dsel_bid_px ?sel)) ?bids"
  note en = delta_open_cursors_engaged [OF cs]
  from delta_rows_ts [OF rows en]
  have ts: "d_ts (m_bufs st') = filter (in_window ?s ?e) (row_timestamps ?n cs)"
    by (simp add: delta_clear_def)
  from view have n: "dv_n view = length (d_ts (m_bufs st'))" by (simp add: delta_view_def)
  from n ts have la: "length ?asks = dv_n view" by (simp add: length_ask_rows)
  from n ts have lb: "length ?bids = dv_n view" by (simp add: length_bid_rows)
  from delta_rows_ask [OF rows en]
  have a: "d_ask_px (m_bufs st') = concat (map (map e_value \<circ> fst) ?asks)"
          "d_ask_qty (m_bufs st') = concat (map (map e_value \<circ> snd) ?asks)"
          "dsel_ask_px ?sel \<or> dsel_ask_qty ?sel
           \<Longrightarrow> d_ask_off (m_bufs st') = push_offsets [0] ?ks"
    by (simp_all add: delta_clear_def)
  from delta_rows_bid [OF rows en]
  have b: "d_bid_px (m_bufs st') = concat (map (map e_value \<circ> fst) ?bids)"
          "d_bid_qty (m_bufs st') = concat (map (map e_value \<circ> snd) ?bids)"
          "dsel_bid_px ?sel \<or> dsel_bid_qty ?sel
           \<Longrightarrow> d_bid_off (m_bufs st') = push_offsets [0] ?js"
    by (simp_all add: delta_clear_def)
  have offs: "\<And>qs :: nat list. length qs = dv_n view \<Longrightarrow>
          length (push_offsets [0] qs) = dv_n view + 1 \<and> push_offsets [0] qs ! 0 = 0 \<and>
          (\<forall>i < dv_n view. push_offsets [0] qs ! (i + 1) - push_offsets [0] qs ! i
                            = of_nat (qs ! i)) \<and>
          (sum_list qs < 2 ^ 32 \<longrightarrow>
             sorted (map unat (push_offsets [0] qs)) \<and>
             (\<forall>i < dv_n view. unat (push_offsets [0] qs ! (i + 1))
                               - unat (push_offsets [0] qs ! i) = qs ! i))"
    using push_offsets_first push_offsets_step push_offsets_sorted push_offsets_unat_step
    by auto
  have A: "if dsel_ask_px ?sel \<or> dsel_ask_qty ?sel
           then \<exists>off. dv_ask_off view = Some off \<and> off = push_offsets [0] ?ks \<and>
                      length off = dv_n view + 1 \<and> off ! 0 = 0 \<and>
                      (\<forall>i < dv_n view. off ! (i + 1) - off ! i = of_nat (?ks ! i)) \<and>
                      (sum_list ?ks < 2 ^ 32 \<longrightarrow>
                         sorted (map unat off) \<and>
                         (\<forall>i < dv_n view. unat (off ! (i + 1)) - unat (off ! i) = ?ks ! i))
           else dv_ask_off view = None"
  proof (cases "dsel_ask_px ?sel \<or> dsel_ask_qty ?sel")
    case True
    from la have "length ?ks = dv_n view" by simp
    from offs [OF this] a(3) [OF True] view True show ?thesis
      by (simp add: delta_view_def data_if_def)
  next
    case False
    with view show ?thesis by (simp add: delta_view_def data_if_def)
  qed
  have B: "if dsel_bid_px ?sel \<or> dsel_bid_qty ?sel
           then \<exists>off. dv_bid_off view = Some off \<and> off = push_offsets [0] ?js \<and>
                      length off = dv_n view + 1 \<and> off ! 0 = 0 \<and>
                      (\<forall>i < dv_n view. off ! (i + 1) - off ! i = of_nat (?js ! i)) \<and>
                      (sum_list ?js < 2 ^ 32 \<longrightarrow>
                         sorted (map unat off) \<and>
                         (\<forall>i < dv_n view. unat (off ! (i + 1)) - unat (off ! i) = ?js ! i))
           else dv_bid_off view = None"
  proof (cases "dsel_bid_px ?sel \<or> dsel_bid_qty ?sel")
    case True
    from lb have "length ?js = dv_n view" by simp
    from offs [OF this] b(3) [OF True] view True show ?thesis
      by (simp add: delta_view_def data_if_def)
  next
    case False
    with view show ?thesis by (simp add: delta_view_def data_if_def)
  qed
  from view a(1,2) b(1,2)
  have V: "dv_ask_px view = data_if (dsel_ask_px ?sel) (concat (map (map e_value \<circ> fst) ?asks))"
          "dv_ask_qty view = data_if (dsel_ask_qty ?sel) (concat (map (map e_value \<circ> snd) ?asks))"
          "dv_bid_px view = data_if (dsel_bid_px ?sel) (concat (map (map e_value \<circ> fst) ?bids))"
          "dv_bid_qty view = data_if (dsel_bid_qty ?sel) (concat (map (map e_value \<circ> snd) ?bids))"
    by (simp_all add: delta_view_def)
  from fs cs la lb V A B show ?thesis
    unfolding Let_def by blast
qed

theorem depth_batch_offsets_witness:
  "get_depth_cols depth_exists data_db 1756857600000000000 1756944000000000000
     ''BTCUSDT'' (Some ''spot'') select_all_depth = Inr depth_day3_reader \<and>
   (\<exists>view st'.
      delta_next depth_disk depth_day3_reader no_depth_view = (True, view, st') \<and>
      dv_n view = 3 \<and> dv_ask_off view = Some [0, 2, 2, 3] \<and>
      dv_ask_px view = Some [101, 102, 103] \<and>
      fst (delta_next depth_disk st' view) = False)"
proof -
  have g: "get_depth_cols depth_exists data_db 1756857600000000000 1756944000000000000
             ''BTCUSDT'' (Some ''spot'') select_all_depth = Inr depth_day3_reader"
    by code_simp
  obtain ok view st'
    where r: "delta_next depth_disk depth_day3_reader no_depth_view = (ok, view, st')"
    by (rule prod_cases3)
  have "fst (delta_next depth_disk depth_day3_reader no_depth_view) = True"
    by code_simp
  with r have ok: "ok = True" by simp
  have "dv_n (fst (snd (delta_next depth_disk depth_day3_reader no_depth_view))) = 3"
    by code_simp
  with r have n: "dv_n view = 3" by simp
  have "m_fs (snd (snd (delta_next depth_disk depth_day3_reader no_depth_view)))
        = Some \<lparr>fs_file = \<lparr>schema = depth_schema, row_groups = [depth_rg_day3]\<rparr>, rg_idx = 1\<rparr>"
    by code_simp
  with r have fs': "m_fs st'
        = Some \<lparr>fs_file = \<lparr>schema = depth_schema, row_groups = [depth_rg_day3]\<rparr>, rg_idx = 1\<rparr>"
    by simp
  have sel: "m_sel depth_day3_reader = select_all_depth"
            "m_start_ns depth_day3_reader = 1756857600000000000"
            "m_end_ns depth_day3_reader = 1756944000000000000"
    by (simp_all add: depth_day3_reader_def Impl_new_def)
  have rows: "case delta_open_cursors select_all_depth depth_schema depth_rg_day3 of
          Inl x \<Rightarrow> False
        | Inr cs \<Rightarrow>
            map (row_count True)
              (ask_rows 1756857600000000000 1756944000000000000 select_all_depth 3 cs)
            = [2, 0, 1] \<and>
            concat (map (map e_value \<circ> fst)
              (ask_rows 1756857600000000000 1756944000000000000 select_all_depth 3 cs))
            = [101, 102, 103]"
    by code_simp
  have last: "fst (delta_next depth_disk
                (snd (snd (delta_next depth_disk depth_day3_reader no_depth_view)))
                (fst (snd (delta_next depth_disk depth_day3_reader no_depth_view)))) = False"
    by code_simp
  from depth_batch_offsets [OF r [unfolded ok]] fs' sel rows
  have "dv_ask_off view = Some (push_offsets [0] [2, 0, 1])"
       "dv_ask_px view = Some [101, 102, 103]"
    by (auto simp: Let_def select_all_depth_def depth_rg_day3_def data_if_def
             split: sum.splits)
  then have "dv_ask_off view = Some [0, 2, 2, 3]" "dv_ask_px view = Some [101, 102, 103]"
    by (simp_all add: push_offsets_def)
  with g r ok n last show ?thesis by auto
qed

lemma big_open_cursors:
  "delta_open_cursors select_ask_px depth_schema big_rg = Inr big_cursors"
proof -
  have i: "find_col_idx depth_schema ''ts'' = 0"
          "find_col_idx depth_schema ''ask.list.element.px'' = 4"
    by code_simp+
  have d: "depth_schema ! 0 = required_col ''ts''"
          "depth_schema ! 4 = list_col ''ask.list.element.px''"
    by (simp_all add: depth_schema_def)
  have c: "cursor_at depth_schema big_rg 0
           = Inr (fresh_cursor (required_values [1756857600000000000]) 0 0)"
          "cursor_at depth_schema big_rg 4 = Inr big_leaf"
    by (simp_all add: cursor_at_def Column_def big_rg_def bnd_def Int64Cursor_new_def d
          required_col_def list_col_def big_leaf_def)
  show ?thesis
    by (simp add: delta_open_cursors_def Let_def i c bnd_def open_selected_def
          select_ask_px_def big_cursors_def)
qed

lemma big_row:
  "\<exists>cs1. delta_row (sept_ns 3) (sept_ns 4) select_ask_px big_cursors
           (delta_clear select_ask_px) = Inr (cs1, big_bufs)"
proof -
  have "case take_entry (fresh_cursor (required_values [1756857600000000000]) 0 0) of
          Inl x \<Rightarrow> False
        | Inr (e, c) \<Rightarrow> e_value e = 1756857600000000000"
    by code_simp
  then obtain e_ts ts1 where
    t: "take_entry (fresh_cursor (required_values [1756857600000000000]) 0 0)
        = Inr (e_ts, ts1)"
    and v: "e_value e_ts = 1756857600000000000"
    by (auto split: sum.splits)
  from big_leaf_row obtain leaf' where
    r: "append_list_from_leaf_for_row big_leaf (Some [])
        = Inr (0, leaf', Some (replicate 4294967296 7))" by blast
  have w: "(sept_ns 3 \<le> e_value e_ts \<and> e_value e_ts < sept_ns 4) = True"
    by (simp add: v sept_ns_def)
  have a: "side_for_row True False (Some big_leaf) None True [] []
           = Inr (0, Some leaf', None, replicate 4294967296 7, [])"
    by (simp add: side_for_row_def out_ptr_def deref_def bnd_def r)
  have b: "side_for_row False False None None True [] [] = Inr (0, None, None, [], [])"
    by (simp add: side_for_row_def)
  have s: "dsel_firstId select_ask_px = False" "dsel_lastId select_ask_px = False"
          "dsel_eventTime select_ask_px = False" "dsel_ask_px select_ask_px = True"
          "dsel_ask_qty select_ask_px = False" "dsel_bid_px select_ask_px = False"
          "dsel_bid_qty select_ask_px = False"
    by (simp_all add: select_ask_px_def)
  have c: "c_ts big_cursors = fresh_cursor (required_values [1756857600000000000]) 0 0"
          "c_fid big_cursors = None" "c_lid big_cursors = None" "c_evt big_cursors = None"
          "c_apx big_cursors = Some big_leaf" "c_aqty big_cursors = None"
          "c_bpx big_cursors = None" "c_bqty big_cursors = None"
    by (simp_all add: big_cursors_def)
  have d: "delta_clear select_ask_px
           = \<lparr>d_ts = [], d_fid = [], d_lid = [], d_evt = [], d_ask_off = [0],
               d_ask_px = [], d_ask_qty = [], d_bid_off = [], d_bid_px = [],
               d_bid_qty = []\<rparr>"
    by (simp add: delta_clear_def s)
  have "delta_row (sept_ns 3) (sept_ns 4) select_ask_px big_cursors
          (delta_clear select_ask_px)
        = Inr (\<lparr>c_ts = ts1, c_fid = None, c_lid = None, c_evt = None,
                 c_apx = Some leaf', c_aqty = None, c_bpx = None, c_bqty = None\<rparr>,
               \<lparr>d_ts = [e_value e_ts], d_fid = [], d_lid = [], d_evt = [],
                 d_ask_off = [0, 0], d_ask_px = replicate 4294967296 7, d_ask_qty = [],
                 d_bid_off = [], d_bid_px = [], d_bid_qty = []\<rparr>)"
    unfolding delta_row_def s c d
    by (simp add: bnd_def Let_def t w a b take_selected_def push_if_def push_offset_def)
  then show ?thesis by (simp add: v big_bufs_def)
qed

lemma big_next_rg:
  "\<exists>fs1 . delta_next_rg (sept_ns 3) (sept_ns 4) select_ask_px
            \<lparr>fs_file = big_file, rg_idx = 0\<rparr> b = Inr (True, fs1, big_bufs)"
proof -
  from big_row obtain cs1 where
    r: "delta_row (sept_ns 3) (sept_ns 4) select_ask_px big_cursors
          (delta_clear select_ask_px) = Inr (cs1, big_bufs)" by blast
  have rows: "delta_rows 1 (sept_ns 3) (sept_ns 4) select_ask_px big_cursors
                (delta_clear select_ask_px) = Inr (cs1, big_bufs)"
    by (simp add: r bnd_def)
  have f: "row_groups big_file = [big_rg]" "schema big_file = depth_schema"
          "num_rows big_rg = 1"
    by (simp_all add: big_file_def big_rg_def)
  have n: "d_ts big_bufs \<noteq> []" by (simp add: big_bufs_def)
  show ?thesis
    by (subst delta_next_rg.simps) (simp add: Let_def f big_open_cursors r bnd_def n)
qed

lemma big_next:
  "\<exists>st'. delta_next big_disk big_reader no_depth_view
         = (True, delta_view select_ask_px big_bufs (filename (depth_path 3)), st')"
proof -
  from big_next_rg [of empty_delta_bufs] obtain fs1 where
    r: "delta_next_rg (sept_ns 3) (sept_ns 4) select_ask_px
          \<lparr>fs_file = big_file, rg_idx = 0\<rparr> empty_delta_bufs = Inr (True, fs1, big_bufs)"
    by blast
  have o: "ensure_open big_disk big_reader
           = Opened \<lparr>fs_file = big_file, rg_idx = 0\<rparr>
               (big_reader\<lparr>m_fs := Some \<lparr>fs_file = big_file, rg_idx = 0\<rparr>,
                            m_cur_file_base := filename (depth_path 3)\<rparr>)"
    by (simp add: ensure_open_def big_reader_def Impl_new_def FileStreamer_new_def
          big_disk_def bnd_def depth_candidate_def)
  have n: "d_ts big_bufs \<noteq> []" by (simp add: big_bufs_def)
  have m: "m_start_ns big_reader = sept_ns 3" "m_end_ns big_reader = sept_ns 4"
          "m_sel big_reader = select_ask_px" "m_bufs big_reader = empty_delta_bufs"
    by (simp_all add: big_reader_def Impl_new_def)
  show ?thesis
    by (subst delta_next.simps) (simp add: o m r n)
qed

text \<open>
  As the claim states it, the difference of two successive offsets would be the
  number of list elements of the row for every batch. The offsets are
  \<open>uint32_t\<close>: on a file of one row whose ask list has \<open>2^32\<close> elements, the
  batch has that row and all its \<open>4294967296\<close> ask prices, and the ask offsets
  are \<open>[0, 0]\<close>.
\<close>

theorem offsets_wrap_at_2_32_elements:
  "get_depth_cols depth_exists data_db (sept_ns 3) (sept_ns 4) ''BTCUSDT'' (Some ''spot'')
     select_ask_px = Inr big_reader \<and>
   fst (delta_next big_disk big_reader no_depth_view) = True \<and>
   dv_n (fst (snd (delta_next big_disk big_reader no_depth_view))) = 1 \<and>
   dv_ask_off (fst (snd (delta_next big_disk big_reader no_depth_view))) = Some [0, 0] \<and>
   dv_ask_px (fst (snd (delta_next big_disk big_reader no_depth_view)))
   = Some (replicate 4294967296 7) \<and>
   length (replicate 4294967296 (7 :: int)) = 4294967296"
proof -
  have g: "get_depth_cols depth_exists data_db (sept_ns 3) (sept_ns 4) ''BTCUSDT''
             (Some ''spot'') select_ask_px = Inr big_reader"
    by code_simp
  from big_next obtain st' where
    "delta_next big_disk big_reader no_depth_view
     = (True, delta_view select_ask_px big_bufs (filename (depth_path 3)), st')" by blast
  with g show ?thesis
    by (simp add: delta_view_def big_bufs_def data_if_def select_ask_px_def)
qed

subsection \<open>Row groups of the top and trade streamers\<close>

lemma count_in_window_filter:
  "count_in_window s e ts = length (filter (in_window s e) ts)"
  by (induction ts) (simp_all add: in_window_def)

lemma scatter_loop_filter:
  assumes "w + count_in_window s e ts \<le> length out_vec" and "i + length ts \<le> length tmp"
  shows "scatter_loop s e ts tmp i w out_vec
         = take w out_vec @
           map snd (filter (\<lambda>(t, v). in_window s e t) (zip ts (drop i tmp))) @
           drop (w + count_in_window s e ts) out_vec"
  using assms
proof (induction ts arbitrary: i w out_vec)
  case Nil
  then show ?case by simp
next
  case (Cons t ts)
  from Cons.prems(2) have i: "i < length tmp" by simp
  then have d: "drop i tmp = tmp ! i # drop (Suc i) tmp" by (simp add: Cons_nth_drop_Suc)
  show ?case
  proof (cases "t \<ge> s \<and> t < e")
    case True
    with Cons.prems have w: "w < length out_vec"
      and p1: "Suc w + count_in_window s e ts \<le> length (out_vec[w := tmp ! i])"
      and p2: "Suc i + length ts \<le> length tmp" by simp_all
    from w have tk: "take (Suc w) (out_vec[w := tmp ! i]) = take w out_vec @ [tmp ! i]"
      by (simp add: take_Suc_conv_app_nth)
    from True have c: "(t \<ge> s \<and> t < e) = True" by simp
    from Cons.IH [OF p1 p2] d tk show ?thesis
      by (simp add: in_window_def c)
  next
    case False
    with Cons.prems have p1: "w + count_in_window s e ts \<le> length out_vec"
      and p2: "Suc i + length ts \<le> length tmp" by simp_all
    from False have c: "(t \<ge> s \<and> t < e) = False" by simp
    from Cons.IH [OF p1 p2] d show ?thesis
      by (simp add: in_window_def c)
  qed
qed

lemma filter_zip_self:
  "map snd (filter (\<lambda>(t, v). P t) (zip ts ts)) = filter P ts"
  by (induction ts) simp_all

lemma scatter_loop_ts:
  "scatter_loop s e ts ts 0 0 (resize (count_in_window s e ts) vec) = filter (in_window s e) ts"
  using scatter_loop_filter [of 0 s e ts "resize (count_in_window s e ts) vec" 0 ts]
  by (simp add: filter_zip_self)

lemma top_next_rg_batch:
  assumes "top_next_rg s e sel fs b = Inr (True, fs1, b1)"
  shows "fs_file fs1 = fs_file fs \<and> rg_idx fs < rg_idx fs1 \<and>
         rg_idx fs1 \<le> length (row_groups (fs_file fs)) \<and>
         (\<exists>ts_all.
            0 \<le> find_col_idx (schema (fs_file fs)) ''ts'' \<and>
            read_required_i64_column (row_groups (fs_file fs) ! (rg_idx fs1 - 1))
              (nat (find_col_idx (schema (fs_file fs)) ''ts'')) = Inr ts_all \<and>
            t_ts b1 = filter (in_window s e) ts_all)"
  using assms
proof (induction s e sel fs b rule: top_next_rg.induct)
  case (1 s e sel fs b)
  let ?rg = "row_groups (fs_file fs) ! rg_idx fs"
  let ?fs1 = "fs\<lparr>rg_idx := rg_idx fs + 1\<rparr>"
  let ?ts_i = "find_col_idx (schema (fs_file fs)) ''ts''"
  from "1.prems" have lt: "\<not> rg_idx fs \<ge> length (row_groups (fs_file fs))"
    by (subst (asm) top_next_rg.simps) (auto split: if_splits)
  from "1.prems" lt have ti: "\<not> ?ts_i < 0"
    by (subst (asm) top_next_rg.simps) (auto simp: Let_def split: if_splits)
  from "1.prems" lt ti obtain ts_all
    where ts: "read_required_i64_column ?rg (nat ?ts_i) = Inr ts_all"
    by (subst (asm) top_next_rg.simps) (auto simp: Let_def split: sum.splits)
  show ?case
  proof (cases "count_in_window s e ts_all = 0")
    case True
    with "1.prems" lt ti ts have "top_next_rg s e sel ?fs1 b = Inr (True, fs1, b1)"
      by (subst (asm) top_next_rg.simps) (simp add: Let_def)
    from "1.IH" [OF lt refl refl refl ti ts refl True this] show ?thesis by auto
  next
    case False
    let ?b1 = "top_resize sel (count_in_window s e ts_all) b"
    let ?b2 = "?b1\<lparr>t_ts := scatter_loop s e ts_all ts_all 0 0 (t_ts ?b1)\<rparr>"
    from "1.prems" lt ti ts False
    have sc: "top_scatter_all sel (schema (fs_file fs)) ?rg s e ts_all ?b2 = Inr b1"
      and f: "fs1 = ?fs1"
      by (subst (asm) top_next_rg.simps, auto simp: Let_def split: sum.splits)+
    from top_scatter_all_ts [OF sc]
    have "t_ts b1 = filter (in_window s e) ts_all"
      by (simp add: top_resize_def scatter_loop_ts)
    with lt ti ts f show ?thesis by auto
  qed
qed

lemma top_next_batch:
  assumes "top_next dsk st out = (True, view, st')"
  shows "\<exists>fs ts_all.
           m_fs st' = Some fs \<and> 0 < rg_idx fs \<and> rg_idx fs \<le> length (row_groups (fs_file fs)) \<and>
           0 \<le> find_col_idx (schema (fs_file fs)) ''ts'' \<and>
           read_required_i64_column (row_groups (fs_file fs) ! (rg_idx fs - 1))
             (nat (find_col_idx (schema (fs_file fs)) ''ts'')) = Inr ts_all \<and>
           t_ts (m_bufs st') = filter (in_window (m_start_ns st) (m_end_ns st)) ts_all \<and>
           t_ts (m_bufs st') \<noteq> [] \<and>
           view = top_view (m_sel st) (m_bufs st') (m_cur_file_base st')"
proof -
  from top_next_True [OF assms] obtain fs0 b fs1
    where rg: "top_next_rg (m_start_ns st) (m_end_ns st) (m_sel st) fs0 b
                 = Inr (True, fs1, m_bufs st')"
      and fs: "m_fs st' = Some fs1"
      and view: "view = top_view (m_sel st) (m_bufs st') (m_cur_file_base st')"
    by blast
  from top_next_rg_batch [OF rg] top_next_rg_True [OF rg] fs view show ?thesis
    by auto
qed

lemma trade_next_rg_batch:
  assumes "trade_next_rg s e sel fs b = Inr (True, fs1, b1)"
  shows "fs_file fs1 = fs_file fs \<and> rg_idx fs < rg_idx fs1 \<and>
         rg_idx fs1 \<le> length (row_groups (fs_file fs)) \<and>
         (\<exists>ts_all.
            0 \<le> find_col_idx (schema (fs_file fs)) ''ts'' \<and>
            read_required_i64_column (row_groups (fs_file fs) ! (rg_idx fs1 - 1))
              (nat (find_col_idx (schema (fs_file fs)) ''ts'')) = Inr ts_all \<and>
            tr_ts b1 = filter (in_window s e) ts_all)"
  using assms
proof (induction s e sel fs b rule: trade_next_rg.induct)
  case (1 s e sel fs b)
  let ?rg = "row_groups (fs_file fs) ! rg_idx fs"
  let ?fs1 = "fs\<lparr>rg_idx := rg_idx fs + 1\<rparr>"
  let ?ts_i = "find_col_idx (schema (fs_file fs)) ''ts''"
  from "1.prems" have lt: "\<not> rg_idx fs \<ge> length (row_groups (fs_file fs))"
    by (subst (asm) trade_next_rg.simps) (auto split: if_splits)
  from "1.prems" lt have ti: "\<not> ?ts_i < 0"
    by (subst (asm) trade_next_rg.simps) (auto simp: Let_def split: if_splits)
  from "1.prems" lt ti obtain ts_all
    where ts: "read_required_i64_column ?rg (nat ?ts_i) = Inr ts_all"
    by (subst (asm) trade_next_rg.simps) (auto simp: Let_def split: sum.splits)
  show ?case
  proof (cases "count_in_window s e ts_all = 0")
    case True
    with "1.prems" lt ti ts have "trade_next_rg s e sel ?fs1 b = Inr (True, fs1, b1)"
      by (subst (asm) trade_next_rg.simps) (simp add: Let_def)
    from "1.IH" [OF lt refl refl refl ti ts refl True this] show ?thesis by auto
  next
    case False
    let ?b1 = "trade_resize sel (count_in_window s e ts_all) b"
    let ?b2 = "?b1\<lparr>tr_ts := scatter_loop s e ts_all ts_all 0 0 (tr_ts ?b1)\<rparr>"
    from "1.prems" lt ti ts False
    have sc: "trade_scatter_all sel (schema (fs_file fs)) ?rg s e ts_all ?b2 = Inr b1"
      and f: "fs1 = ?fs1"
      by (subst (asm) trade_next_rg.simps, auto simp: Let_def split: sum.splits)+
    from trade_scatter_all_ts [OF sc]
    have "tr_ts b1 = filter (in_window s e) ts_all"
      by (simp add: trade_resize_def scatter_loop_ts)
    with lt ti ts f show ?thesis by auto
  qed
qed

lemma trade_next_batch:
  assumes "trade_next dsk st out = (True, view, st')"
  shows "\<exists>fs ts_all.
           m_fs st' = Some fs \<and> 0 < rg_idx fs \<and> rg_idx fs \<le> length (row_groups (fs_file fs)) \<and>
           0 \<le> find_col_idx (schema (fs_file fs)) ''ts'' \<and>
           read_required_i64_column (row_groups (fs_file fs) ! (rg_idx fs - 1))
             (nat (find_col_idx (schema (fs_file fs)) ''ts'')) = Inr ts_all \<and>
           tr_ts (m_bufs st') = filter (in_window (m_start_ns st) (m_end_ns st)) ts_all \<and>
           tr_ts (m_bufs st') \<noteq> [] \<and>
           view = trade_view (m_sel st) (m_bufs st') (m_cur_file_base st')"
proof -
  from trade_next_True [OF assms] obtain fs0 b fs1
    where rg: "trade_next_rg (m_start_ns st) (m_end_ns st) (m_sel st) fs0 b
                 = Inr (True, fs1, m_bufs st')"
      and fs: "m_fs st' = Some fs1"
      and view: "view = trade_view (m_sel st) (m_bufs st') (m_cur_file_base st')"
    by blast
  from trade_next_rg_batch [OF rg] trade_next_rg_True [OF rg] fs view show ?thesis
    by auto
qed

lemma delta_next_batch_ts:
  assumes "delta_next dsk st out = (True, view, st')"
  shows "\<exists>fs cs.
           m_fs st' = Some fs \<and> 0 < rg_idx fs \<and> rg_idx fs \<le> length (row_groups (fs_file fs)) \<and>
           delta_open_cursors (m_sel st) (schema (fs_file fs))
             (row_groups (fs_file fs) ! (rg_idx fs - 1)) = Inr cs \<and>
           d_ts (m_bufs st')
             = filter (in_window (m_start_ns st) (m_end_ns st))
                 (row_timestamps (num_rows (row_groups (fs_file fs) ! (rg_idx fs - 1))) cs) \<and>
           d_ts (m_bufs st') \<noteq> [] \<and>
           view = delta_view (m_sel st) (m_bufs st') (m_cur_file_base st')"
proof -
  from delta_next_batch [OF assms] obtain fs cs cs1
    where fs: "m_fs st' = Some fs" "0 < rg_idx fs" "rg_idx fs \<le> length (row_groups (fs_file fs))"
      and cs: "delta_open_cursors (m_sel st) (schema (fs_file fs))
                 (row_groups (fs_file fs) ! (rg_idx fs - 1)) = Inr cs"
      and rows: "delta_rows (num_rows (row_groups (fs_file fs) ! (rg_idx fs - 1)))
                   (m_start_ns st) (m_end_ns st) (m_sel st) cs (delta_clear (m_sel st))
                 = Inr (cs1, m_bufs st')"
      and view: "view = delta_view (m_sel st) (m_bufs st') (m_cur_file_base st')"
    by blast
  from delta_rows_ts [OF rows delta_open_cursors_engaged [OF cs]]
  have ts: "d_ts (m_bufs st')
            = filter (in_window (m_start_ns st) (m_end_ns st))
                (row_timestamps (num_rows (row_groups (fs_file fs) ! (rg_idx fs - 1))) cs)"
    by (simp add: delta_clear_def)
  from delta_next_True [OF assms] obtain fs0 b fs1
    where "delta_next_rg (m_start_ns st) (m_end_ns st) (m_sel st) fs0 b
             = Inr (True, fs1, m_bufs st')" by blast
  from delta_next_rg_True [OF this] have "d_ts (m_bufs st') \<noteq> []" .
  with fs cs ts view show ?thesis by blast
qed

subsection \<open>Rows outside the window\<close>



subsection \<open>The time window\<close>

text \<open>
  Claim C2. Time-window selection is exact and half-open, for every data kind.
  Whenever \<open>next\<close> of the top, trade or depth reader returns true with a
  window \<open>[s, e)\<close>, the batch has \<open>n\<close> rows, \<open>n\<close> being the length of the
  timestamp buffer the view points to; that buffer holds exactly the timestamps
  of the current row group that lie in the window, in file order; so every
  delivered timestamp \<open>t\<close> satisfies \<open>s \<le> t < e\<close>, and \<open>e\<close> itself is
  never delivered.
\<close>

theorem time_window_is_half_open:
  "(top_next dsk1 st1 out1 = (True, view1, st1') \<longrightarrow>
      tv_n view1 = length (t_ts (m_bufs st1')) \<and>
      tv_ts view1 = data_if (tsel_ts (m_sel st1)) (t_ts (m_bufs st1')) \<and>
      (\<exists>fs ts_all.
         m_fs st1' = Some fs \<and>
         read_required_i64_column (row_groups (fs_file fs) ! (rg_idx fs - 1))
           (nat (find_col_idx (schema (fs_file fs)) ''ts'')) = Inr ts_all \<and>
         t_ts (m_bufs st1') = filter (in_window (m_start_ns st1) (m_end_ns st1)) ts_all) \<and>
      (\<forall>t \<in> set (t_ts (m_bufs st1')). m_start_ns st1 \<le> t \<and> t < m_end_ns st1) \<and>
      m_end_ns st1 \<notin> set (t_ts (m_bufs st1'))) \<and>
   (trade_next dsk2 st2 out2 = (True, view2, st2') \<longrightarrow>
      trv_n view2 = length (tr_ts (m_bufs st2')) \<and>
      trv_ts view2 = data_if (trsel_ts (m_sel st2)) (tr_ts (m_bufs st2')) \<and>
      (\<exists>fs ts_all.
         m_fs st2' = Some fs \<and>
         read_required_i64_column (row_groups (fs_file fs) ! (rg_idx fs - 1))
           (nat (find_col_idx (schema (fs_file fs)) ''ts'')) = Inr ts_all \<and>
         tr_ts (m_bufs st2') = filter (in_window (m_start_ns st2) (m_end_ns st2)) ts_all) \<and>
      (\<forall>t \<in> set (tr_ts (m_bufs st2')). m_start_ns st2 \<le> t \<and> t < m_end_ns st2) \<and>
      m_end_ns st2 \<notin> set (tr_ts (m_bufs st2'))) \<and>
   (delta_next dsk3 st3 out3 = (True, view3, st3') \<longrightarrow>
      dv_n view3 = length (d_ts (m_bufs st3')) \<and>
      dv_ts view3 = data_if (dsel_ts (m_sel st3)) (d_ts (m_bufs st3')) \<and>
      (\<exists>fs cs.
         m_fs st3' = Some fs \<and>
         delta_open_cursors (m_sel st3) (schema (fs_file fs))
           (row_groups (fs_file fs) ! (rg_idx fs - 1)) = Inr cs \<and>
         d_ts (m_bufs st3')
           = filter (in_window (m_start_ns st3) (m_end_ns st3))
               (row_timestamps (num_rows (row_groups (fs_file fs) ! (rg_idx fs - 1))) cs)) \<and>
      (\<forall>t \<in> set (d_ts (m_bufs st3')). m_start_ns st3 \<le> t \<and> t < m_end_ns st3) \<and>
      m_end_ns st3 \<notin> set (d_ts (m_bufs st3')))"
proof (intro conjI impI)
  assume a: "top_next dsk1 st1 out1 = (True, view1, st1')"
  from top_next_batch [OF a] obtain fs ts_all where
    b: "m_fs st1' = Some fs"
       "read_required_i64_column (row_groups (fs_file fs) ! (rg_idx fs - 1))
          (nat (find_col_idx (schema (fs_file fs)) ''ts'')) = Inr ts_all"
       "t_ts (m_bufs st1') = filter (in_window (m_start_ns st1) (m_end_ns st1)) ts_all"
       "view1 = top_view (m_sel st1) (m_bufs st1') (m_cur_file_base st1')"
    by blast
  from b(4) show "tv_n view1 = length (t_ts (m_bufs st1'))"
    and "tv_ts view1 = data_if (tsel_ts (m_sel st1)) (t_ts (m_bufs st1'))"
    by (simp_all add: top_view_def)
  from b(1-3) show "\<exists>fs ts_all.
         m_fs st1' = Some fs \<and>
         read_required_i64_column (row_groups (fs_file fs) ! (rg_idx fs - 1))
           (nat (find_col_idx (schema (fs_file fs)) ''ts'')) = Inr ts_all \<and>
         t_ts (m_bufs st1') = filter (in_window (m_start_ns st1) (m_end_ns st1)) ts_all"
    by blast
  from b(3) show "\<forall>t \<in> set (t_ts (m_bufs st1')). m_start_ns st1 \<le> t \<and> t < m_end_ns st1"
    and "m_end_ns st1 \<notin> set (t_ts (m_bufs st1'))"
    by (simp_all add: in_window_def)
next
  assume a: "trade_next dsk2 st2 out2 = (True, view2, st2')"
  from trade_next_batch [OF a] obtain fs ts_all where
    b: "m_fs st2' = Some fs"
       "read_required_i64_column (row_groups (fs_file fs) ! (rg_idx fs - 1))
          (nat (find_col_idx (schema (fs_file fs)) ''ts'')) = Inr ts_all"
       "tr_ts (m_bufs st2') = filter (in_window (m_start_ns st2) (m_end_ns st2)) ts_all"
       "view2 = trade_view (m_sel st2) (m_bufs st2') (m_cur_file_base st2')"
    by blast
  from b(4) show "trv_n view2 = length (tr_ts (m_bufs st2'))"
    and "trv_ts view2 = data_if (trsel_ts (m_sel st2)) (tr_ts (m_bufs st2'))"
    by (simp_all add: trade_view_def)
  from b(1-3) show "\<exists>fs ts_all.
         m_fs st2' = Some fs \<and>
         read_required_i64_column (row_groups (fs_file fs) ! (rg_idx fs - 1))
           (nat (find_col_idx (schema (fs_file fs)) ''ts'')) = Inr ts_all \<and>
         tr_ts (m_bufs st2') = filter (in_window (m_start_ns st2) (m_end_ns st2)) ts_all"
    by blast
  from b(3) show "\<forall>t \<in> set (tr_ts (m_bufs st2')). m_start_ns st2 \<le> t \<and> t < m_end_ns st2"
    and "m_end_ns st2 \<notin> set (tr_ts (m_bufs st2'))"
    by (simp_all add: in_window_def)
next
  assume a: "delta_next dsk3 st3 out3 = (True, view3, st3')"
  from delta_next_batch_ts [OF a] obtain fs cs where
    b: "m_fs st3' = Some fs"
       "delta_open_cursors (m_sel st3) (schema (fs_file fs))
          (row_groups (fs_file fs) ! (rg_idx fs - 1)) = Inr cs"
       "d_ts (m_bufs st3')
          = filter (in_window (m_start_ns st3) (m_end_ns st3))
              (row_timestamps (num_rows (row_groups (fs_file fs) ! (rg_idx fs - 1))) cs)"
       "view3 = delta_view (m_sel st3) (m_bufs st3') (m_cur_file_base st3')"
    by blast
  from b(4) show "dv_n view3 = length (d_ts (m_bufs st3'))"
    and "dv_ts view3 = data_if (dsel_ts (m_sel st3)) (d_ts (m_bufs st3'))"
    by (simp_all add: delta_view_def)
  from b(1-3) show "\<exists>fs cs.
         m_fs st3' = Some fs \<and>
         delta_open_cursors (m_sel st3) (schema (fs_file fs))
           (row_groups (fs_file fs) ! (rg_idx fs - 1)) = Inr cs \<and>
         d_ts (m_bufs st3')
           = filter (in_window (m_start_ns st3) (m_end_ns st3))
               (row_timestamps (num_rows (row_groups (fs_file fs) ! (rg_idx fs - 1))) cs)"
    by blast
  from b(3) show "\<forall>t \<in> set (d_ts (m_bufs st3')). m_start_ns st3 \<le> t \<and> t < m_end_ns st3"
    and "m_end_ns st3 \<notin> set (d_ts (m_bufs st3'))"
    by (simp_all add: in_window_def)
qed

theorem time_window_is_half_open_witness:
  "(\<exists>view st'.
      top_next top_disk top_day3_reader no_top_view = (True, view, st') \<and>
      tv_n view = 2 \<and> tv_ts view = Some [1756857600000000000, 1756857600000000010] \<and>
      m_end_ns top_day3_reader = 1756857600000000020 \<and>
      1756857600000000020 \<notin> set (t_ts (m_bufs st'))) \<and>
   (\<exists>view st'.
      trade_next trade_disk trade_day3_reader no_trade_view = (True, view, st') \<and>
      trv_n view = 1 \<and> trv_ts view = Some [1756857600000000002] \<and>
      m_end_ns trade_day3_reader = 1756857600000000003 \<and>
      1756857600000000003 \<notin> set (tr_ts (m_bufs st'))) \<and>
   (\<exists>view st'.
      delta_next depth_disk depth_first_second_reader no_depth_view = (True, view, st') \<and>
      dv_n view = 1 \<and> dv_ts view = Some [1756857600000000000] \<and>
      m_end_ns depth_first_second_reader = 1756857601000000000 \<and>
      1756857601000000000 \<notin> set (d_ts (m_bufs st')))"
proof -
  obtain ok1 view1 st1'
    where r1: "top_next top_disk top_day3_reader no_top_view = (ok1, view1, st1')"
    by (rule prod_cases3)
  have "fst (top_next top_disk top_day3_reader no_top_view) = True" by code_simp
  with r1 have ok1: "ok1 = True" by simp
  have "t_ts (m_bufs (snd (snd (top_next top_disk top_day3_reader no_top_view))))
        = [1756857600000000000, 1756857600000000010]" by code_simp
  with r1 have b1: "t_ts (m_bufs st1') = [1756857600000000000, 1756857600000000010]" by simp
  obtain ok2 view2 st2'
    where r2: "trade_next trade_disk trade_day3_reader no_trade_view = (ok2, view2, st2')"
    by (rule prod_cases3)
  have "fst (trade_next trade_disk trade_day3_reader no_trade_view) = True" by code_simp
  with r2 have ok2: "ok2 = True" by simp
  have "tr_ts (m_bufs (snd (snd (trade_next trade_disk trade_day3_reader no_trade_view))))
        = [1756857600000000002]" by code_simp
  with r2 have b2: "tr_ts (m_bufs st2') = [1756857600000000002]" by simp
  obtain ok3 view3 st3'
    where r3: "delta_next depth_disk depth_first_second_reader no_depth_view
               = (ok3, view3, st3')"
    by (rule prod_cases3)
  have "fst (delta_next depth_disk depth_first_second_reader no_depth_view) = True"
    by code_simp
  with r3 have ok3: "ok3 = True" by simp
  have "d_ts (m_bufs (snd (snd (delta_next depth_disk depth_first_second_reader
          no_depth_view)))) = [1756857600000000000]" by code_simp
  with r3 have b3: "d_ts (m_bufs st3') = [1756857600000000000]" by simp
  have sel: "tsel_ts (m_sel top_day3_reader) = True"
            "trsel_ts (m_sel trade_day3_reader) = True"
            "dsel_ts (m_sel depth_first_second_reader) = True"
            "m_end_ns top_day3_reader = 1756857600000000020"
            "m_end_ns trade_day3_reader = 1756857600000000003"
            "m_end_ns depth_first_second_reader = 1756857601000000000"
    by (simp_all add: top_day3_reader_def trade_day3_reader_def depth_first_second_reader_def
          Impl_new_def select_default_top_def select_all_trade_def select_all_depth_def)
  from time_window_is_half_open [of top_disk top_day3_reader no_top_view view1 st1'
      trade_disk trade_day3_reader no_trade_view view2 st2'
      depth_disk depth_first_second_reader no_depth_view view3 st3']
    r1 r2 r3 ok1 ok2 ok3 b1 b2 b3 sel
  show ?thesis by (simp add: data_if_def)
qed

subsection \<open>Batches are never empty\<close>

lemma top_next_rg_skip:
  assumes "rg_idx fs < length (row_groups (fs_file fs))"
    and "0 \<le> find_col_idx (schema (fs_file fs)) ''ts''"
    and "read_required_i64_column (row_groups (fs_file fs) ! rg_idx fs)
           (nat (find_col_idx (schema (fs_file fs)) ''ts'')) = Inr ts_all"
    and "filter (in_window s e) ts_all = []"
  shows "top_next_rg s e sel fs b = top_next_rg s e sel (fs\<lparr>rg_idx := rg_idx fs + 1\<rparr>) b"
proof -
  from assms(4) have "count_in_window s e ts_all = 0"
    by (simp add: count_in_window_filter)
  with assms(1-3) show ?thesis
    by (subst top_next_rg.simps) (simp add: Let_def)
qed

lemma trade_next_rg_skip:
  assumes "rg_idx fs < length (row_groups (fs_file fs))"
    and "0 \<le> find_col_idx (schema (fs_file fs)) ''ts''"
    and "read_required_i64_column (row_groups (fs_file fs) ! rg_idx fs)
           (nat (find_col_idx (schema (fs_file fs)) ''ts'')) = Inr ts_all"
    and "filter (in_window s e) ts_all = []"
  shows "trade_next_rg s e sel fs b = trade_next_rg s e sel (fs\<lparr>rg_idx := rg_idx fs + 1\<rparr>) b"
proof -
  from assms(4) have "count_in_window s e ts_all = 0"
    by (simp add: count_in_window_filter)
  with assms(1-3) show ?thesis
    by (subst trade_next_rg.simps) (simp add: Let_def)
qed

lemma delta_next_rg_skip:
  assumes "rg_idx fs < length (row_groups (fs_file fs))"
    and "delta_open_cursors sel (schema (fs_file fs)) (row_groups (fs_file fs) ! rg_idx fs)
         = Inr cs"
    and "delta_rows (num_rows (row_groups (fs_file fs) ! rg_idx fs)) s e sel cs
           (delta_clear sel) = Inr (cs1, b1)"
    and "filter (in_window s e)
           (row_timestamps (num_rows (row_groups (fs_file fs) ! rg_idx fs)) cs) = []"
  shows "d_ts b1 = [] \<and>
         delta_next_rg s e sel fs b = delta_next_rg s e sel (fs\<lparr>rg_idx := rg_idx fs + 1\<rparr>) b1"
proof -
  from delta_open_cursors_engaged [OF assms(2)] have "engaged sel cs" .
  from delta_rows_ts [OF assms(3) this] assms(4) have d: "d_ts b1 = []"
    by (simp add: delta_clear_def)
  with assms(1-3) show ?thesis
    by (subst delta_next_rg.simps) (simp add: Let_def)
qed

lemma top_next_exhausted:
  assumes "m_fs st = None" and "length (m_files st) \<le> m_file_idx st"
  shows "top_next dsk st out = (False, out, st)"
  using assms by (subst top_next.simps) (simp add: ensure_open_def)

lemma trade_next_exhausted:
  assumes "m_fs st = None" and "length (m_files st) \<le> m_file_idx st"
  shows "trade_next dsk st out = (False, out, st)"
  using assms by (subst trade_next.simps) (simp add: ensure_open_def)

lemma delta_next_exhausted:
  assumes "m_fs st = None" and "length (m_files st) \<le> m_file_idx st"
  shows "delta_next dsk st out = (False, out, st)"
  using assms by (subst delta_next.simps) (simp add: ensure_open_def)

text \<open>
  Claim C9. For each of the three batch readers: when \<open>next\<close> returns true the
  batch has at least one row, and all its rows are in the window (they are the
  in-window timestamps of one row group). A row group none of whose timestamps
  lies in \<open>[s, e)\<close> is skipped: the streamer goes on with the following row
  group and nothing is returned for the skipped one. When no file is open and
  the candidate list is used up, in particular when it is empty, \<open>next\<close>
  returns false and leaves the view and the reader as they were; and whenever
  \<open>next\<close> returns false the reader is in that final state. \<open>next\<close> is a total
  function with no error result.
\<close>

theorem next_true_only_with_rows:
  "(top_next dsk1 st1 out1 = (True, view1, st1') \<longrightarrow>
      1 \<le> tv_n view1 \<and> tv_n view1 = length (t_ts (m_bufs st1')) \<and>
      (\<forall>t \<in> set (t_ts (m_bufs st1')). in_window (m_start_ns st1) (m_end_ns st1) t)) \<and>
   (trade_next dsk2 st2 out2 = (True, view2, st2') \<longrightarrow>
      1 \<le> trv_n view2 \<and> trv_n view2 = length (tr_ts (m_bufs st2')) \<and>
      (\<forall>t \<in> set (tr_ts (m_bufs st2')). in_window (m_start_ns st2) (m_end_ns st2) t)) \<and>
   (delta_next dsk3 st3 out3 = (True, view3, st3') \<longrightarrow>
      1 \<le> dv_n view3 \<and> dv_n view3 = length (d_ts (m_bufs st3')) \<and>
      (\<forall>t \<in> set (d_ts (m_bufs st3')). in_window (m_start_ns st3) (m_end_ns st3) t)) \<and>
   (rg_idx fs1 < length (row_groups (fs_file fs1)) \<and>
    0 \<le> find_col_idx (schema (fs_file fs1)) ''ts'' \<and>
    read_required_i64_column (row_groups (fs_file fs1) ! rg_idx fs1)
      (nat (find_col_idx (schema (fs_file fs1)) ''ts'')) = Inr ts1 \<and>
    filter (in_window s1 e1) ts1 = [] \<longrightarrow>
      top_next_rg s1 e1 sel1 fs1 b1
      = top_next_rg s1 e1 sel1 (fs1\<lparr>rg_idx := rg_idx fs1 + 1\<rparr>) b1) \<and>
   (rg_idx fs2 < length (row_groups (fs_file fs2)) \<and>
    0 \<le> find_col_idx (schema (fs_file fs2)) ''ts'' \<and>
    read_required_i64_column (row_groups (fs_file fs2) ! rg_idx fs2)
      (nat (find_col_idx (schema (fs_file fs2)) ''ts'')) = Inr ts2 \<and>
    filter (in_window s2 e2) ts2 = [] \<longrightarrow>
      trade_next_rg s2 e2 sel2 fs2 b2
      = trade_next_rg s2 e2 sel2 (fs2\<lparr>rg_idx := rg_idx fs2 + 1\<rparr>) b2) \<and>
   (rg_idx fs3 < length (row_groups (fs_file fs3)) \<and>
    delta_open_cursors sel3 (schema (fs_file fs3)) (row_groups (fs_file fs3) ! rg_idx fs3)
      = Inr cs3 \<and>
    delta_rows (num_rows (row_groups (fs_file fs3) ! rg_idx fs3)) s3 e3 sel3 cs3
      (delta_clear sel3) = Inr (cs3', b3') \<and>
    filter (in_window s3 e3)
      (row_timestamps (num_rows (row_groups (fs_file fs3) ! rg_idx fs3)) cs3) = [] \<longrightarrow>
      d_ts b3' = [] \<and>
      delta_next_rg s3 e3 sel3 fs3 b3
      = delta_next_rg s3 e3 sel3 (fs3\<lparr>rg_idx := rg_idx fs3 + 1\<rparr>) b3') \<and>
   (m_fs x1 = None \<and> length (m_files x1) \<le> m_file_idx x1 \<longrightarrow>
      top_next dsk4 x1 o1 = (False, o1, x1)) \<and>
   (m_fs x2 = None \<and> length (m_files x2) \<le> m_file_idx x2 \<longrightarrow>
      trade_next dsk5 x2 o2 = (False, o2, x2)) \<and>
   (m_fs x3 = None \<and> length (m_files x3) \<le> m_file_idx x3 \<longrightarrow>
      delta_next dsk6 x3 o3 = (False, o3, x3)) \<and>
   (top_next dsk7 y1 p1 = (False, p1', y1') \<longrightarrow>
      p1' = p1 \<and> m_fs y1' = None \<and> length (m_files y1') \<le> m_file_idx y1') \<and>
   (trade_next dsk8 y2 p2 = (False, p2', y2') \<longrightarrow>
      p2' = p2 \<and> m_fs y2' = None \<and> length (m_files y2') \<le> m_file_idx y2') \<and>
   (delta_next dsk9 y3 p3 = (False, p3', y3') \<longrightarrow>
      p3' = p3 \<and> m_fs y3' = None \<and> length (m_files y3') \<le> m_file_idx y3')"
proof (intro conjI impI)
  assume a: "top_next dsk1 st1 out1 = (True, view1, st1')"
  from top_next_batch [OF a] obtain ts_all where
    b: "t_ts (m_bufs st1') = filter (in_window (m_start_ns st1) (m_end_ns st1)) ts_all"
       "t_ts (m_bufs st1') \<noteq> []"
       "view1 = top_view (m_sel st1) (m_bufs st1') (m_cur_file_base st1')"
    by blast
  from b(3) show n: "tv_n view1 = length (t_ts (m_bufs st1'))" by (simp add: top_view_def)
  from b(2) n show "1 \<le> tv_n view1" by (cases "t_ts (m_bufs st1')") simp_all
  from b(1) show "\<forall>t \<in> set (t_ts (m_bufs st1')). in_window (m_start_ns st1) (m_end_ns st1) t"
    by simp
next
  assume a: "trade_next dsk2 st2 out2 = (True, view2, st2')"
  from trade_next_batch [OF a] obtain ts_all where
    b: "tr_ts (m_bufs st2') = filter (in_window (m_start_ns st2) (m_end_ns st2)) ts_all"
       "tr_ts (m_bufs st2') \<noteq> []"
       "view2 = trade_view (m_sel st2) (m_bufs st2') (m_cur_file_base st2')"
    by blast
  from b(3) show n: "trv_n view2 = length (tr_ts (m_bufs st2'))" by (simp add: trade_view_def)
  from b(2) n show "1 \<le> trv_n view2" by (cases "tr_ts (m_bufs st2')") simp_all
  from b(1) show "\<forall>t \<in> set (tr_ts (m_bufs st2')). in_window (m_start_ns st2) (m_end_ns st2) t"
    by simp
next
  assume a: "delta_next dsk3 st3 out3 = (True, view3, st3')"
  from delta_next_batch_ts [OF a] obtain ts_all where
    b: "d_ts (m_bufs st3') = filter (in_window (m_start_ns st3) (m_end_ns st3)) ts_all"
       "d_ts (m_bufs st3') \<noteq> []"
       "view3 = delta_view (m_sel st3) (m_bufs st3') (m_cur_file_base st3')"
    by blast
  from b(3) show n: "dv_n view3 = length (d_ts (m_bufs st3'))" by (simp add: delta_view_def)
  from b(2) n show "1 \<le> dv_n view3" by (cases "d_ts (m_bufs st3')") simp_all
  from b(1) show "\<forall>t \<in> set (d_ts (m_bufs st3')). in_window (m_start_ns st3) (m_end_ns st3) t"
    by simp
next
  assume a: "rg_idx fs1 < length (row_groups (fs_file fs1)) \<and>
    0 \<le> find_col_idx (schema (fs_file fs1)) ''ts'' \<and>
    read_required_i64_column (row_groups (fs_file fs1) ! rg_idx fs1)
      (nat (find_col_idx (schema (fs_file fs1)) ''ts'')) = Inr ts1 \<and>
    filter (in_window s1 e1) ts1 = []"
  show "top_next_rg s1 e1 sel1 fs1 b1
      = top_next_rg s1 e1 sel1 (fs1\<lparr>rg_idx := rg_idx fs1 + 1\<rparr>) b1"
    by (rule top_next_rg_skip
          [OF a [THEN conjunct1] a [THEN conjunct2, THEN conjunct1]
              a [THEN conjunct2, THEN conjunct2, THEN conjunct1]
              a [THEN conjunct2, THEN conjunct2, THEN conjunct2]])
next
  assume a: "rg_idx fs2 < length (row_groups (fs_file fs2)) \<and>
    0 \<le> find_col_idx (schema (fs_file fs2)) ''ts'' \<and>
    read_required_i64_column (row_groups (fs_file fs2) ! rg_idx fs2)
      (nat (find_col_idx (schema (fs_file fs2)) ''ts'')) = Inr ts2 \<and>
    filter (in_window s2 e2) ts2 = []"
  show "trade_next_rg s2 e2 sel2 fs2 b2
      = trade_next_rg s2 e2 sel2 (fs2\<lparr>rg_idx := rg_idx fs2 + 1\<rparr>) b2"
    by (rule trade_next_rg_skip
          [OF a [THEN conjunct1] a [THEN conjunct2, THEN conjunct1]
              a [THEN conjunct2, THEN conjunct2, THEN conjunct1]
              a [THEN conjunct2, THEN conjunct2, THEN conjunct2]])
next
  assume a: "rg_idx fs3 < length (row_groups (fs_file fs3)) \<and>
    delta_open_cursors sel3 (schema (fs_file fs3)) (row_groups (fs_file fs3) ! rg_idx fs3)
      = Inr cs3 \<and>
    delta_rows (num_rows (row_groups (fs_file fs3) ! rg_idx fs3)) s3 e3 sel3 cs3
      (delta_clear sel3) = Inr (cs3', b3') \<and>
    filter (in_window s3 e3)
      (row_timestamps (num_rows (row_groups (fs_file fs3) ! rg_idx fs3)) cs3) = []"
  have r: "d_ts b3' = [] \<and>
      delta_next_rg s3 e3 sel3 fs3 b3
      = delta_next_rg s3 e3 sel3 (fs3\<lparr>rg_idx := rg_idx fs3 + 1\<rparr>) b3'"
    by (rule delta_next_rg_skip
          [OF a [THEN conjunct1] a [THEN conjunct2, THEN conjunct1]
              a [THEN conjunct2, THEN conjunct2, THEN conjunct1]
              a [THEN conjunct2, THEN conjunct2, THEN conjunct2]])
  from r show "d_ts b3' = []" by simp
  from r show "delta_next_rg s3 e3 sel3 fs3 b3
      = delta_next_rg s3 e3 sel3 (fs3\<lparr>rg_idx := rg_idx fs3 + 1\<rparr>) b3'" by simp
next
  assume "m_fs x1 = None \<and> length (m_files x1) \<le> m_file_idx x1"
  then show "top_next dsk4 x1 o1 = (False, o1, x1)" by (simp add: top_next_exhausted)
next
  assume "m_fs x2 = None \<and> length (m_files x2) \<le> m_file_idx x2"
  then show "trade_next dsk5 x2 o2 = (False, o2, x2)" by (simp add: trade_next_exhausted)
next
  assume "m_fs x3 = None \<and> length (m_files x3) \<le> m_file_idx x3"
  then show "delta_next dsk6 x3 o3 = (False, o3, x3)" by (simp add: delta_next_exhausted)
next
  assume a: "top_next dsk7 y1 p1 = (False, p1', y1')"
  from top_next_False [OF a]
  show "p1' = p1" and "m_fs y1' = None" and "length (m_files y1') \<le> m_file_idx y1'"
    by simp_all
next
  assume a: "trade_next dsk8 y2 p2 = (False, p2', y2')"
  from trade_next_False [OF a]
  show "p2' = p2" and "m_fs y2' = None" and "length (m_files y2') \<le> m_file_idx y2'"
    by simp_all
next
  assume a: "delta_next dsk9 y3 p3 = (False, p3', y3')"
  from delta_next_False [OF a]
  show "p3' = p3" and "m_fs y3' = None" and "length (m_files y3') \<le> m_file_idx y3'"
    by simp_all
qed

theorem next_true_only_with_rows_witness:
  "(\<exists>view st'.
      top_next top_disk top_day3_reader no_top_view = (True, view, st') \<and> 1 \<le> tv_n view \<and>
      (\<exists>view' st''. top_next top_disk st' view = (False, view', st'') \<and> view' = view \<and>
         m_fs st'' = None)) \<and>
   (\<exists>view st'.
      trade_next trade_disk trade_day3_reader no_trade_view = (True, view, st') \<and>
      1 \<le> trv_n view \<and>
      (\<exists>view' st''. trade_next trade_disk st' view = (False, view', st'') \<and> view' = view \<and>
         m_fs st'' = None)) \<and>
   (\<exists>view st'.
      delta_next depth_disk depth_day7_reader no_depth_view = (True, view, st') \<and>
      1 \<le> dv_n view \<and> dv_ts view = Some [1757228400000000000] \<and>
      (\<exists>view' st''. delta_next depth_disk st' view = (False, view', st'') \<and> view' = view \<and>
         m_fs st'' = None)) \<and>
   top_next_rg 1756857600000000000 1756857600000000020 select_default_top
     \<lparr>fs_file = top_file_day3, rg_idx = 1\<rparr> empty_top_bufs
   = top_next_rg 1756857600000000000 1756857600000000020 select_default_top
       \<lparr>fs_file = top_file_day3, rg_idx = 2\<rparr> empty_top_bufs \<and>
   trade_next_rg 5 6 select_all_trade \<lparr>fs_file = trade_file_day3, rg_idx = 0\<rparr>
     empty_trade_bufs
   = trade_next_rg 5 6 select_all_trade \<lparr>fs_file = trade_file_day3, rg_idx = 1\<rparr>
       empty_trade_bufs \<and>
   delta_next_rg 1757224800000000000 1757289600000000000 select_all_depth
     \<lparr>fs_file = depth_file_day7, rg_idx = 0\<rparr> empty_delta_bufs
   = delta_next_rg 1757224800000000000 1757289600000000000 select_all_depth
       \<lparr>fs_file = depth_file_day7, rg_idx = 1\<rparr> (delta_clear select_all_depth) \<and>
   top_next top_disk (Impl_new [] 0 10 select_default_top empty_top_bufs) no_top_view
   = (False, no_top_view, Impl_new [] 0 10 select_default_top empty_top_bufs) \<and>
   trade_next trade_disk (Impl_new [] 0 10 select_all_trade empty_trade_bufs) no_trade_view
   = (False, no_trade_view, Impl_new [] 0 10 select_all_trade empty_trade_bufs) \<and>
   delta_next depth_disk (Impl_new [] 0 10 select_all_depth empty_delta_bufs) no_depth_view
   = (False, no_depth_view, Impl_new [] 0 10 select_all_depth empty_delta_bufs)"
proof -
  note T = next_true_only_with_rows
  note T1 = T [THEN conjunct1, rule_format]
  note T2 = T [THEN conjunct2, THEN conjunct1, rule_format]
  note T3 = T [THEN conjunct2, THEN conjunct2, THEN conjunct1, rule_format]
  note R3 = T [THEN conjunct2, THEN conjunct2, THEN conjunct2]
  note T4 = R3 [THEN conjunct1, rule_format]
  note T5 = R3 [THEN conjunct2, THEN conjunct1, rule_format]
  note T6 = R3 [THEN conjunct2, THEN conjunct2, THEN conjunct1, rule_format]
  note R6 = R3 [THEN conjunct2, THEN conjunct2, THEN conjunct2]
  note T7 = R6 [THEN conjunct1, rule_format]
  note T8 = R6 [THEN conjunct2, THEN conjunct1, rule_format]
  note T9 = R6 [THEN conjunct2, THEN conjunct2, THEN conjunct1, rule_format]
  note R9 = R6 [THEN conjunct2, THEN conjunct2, THEN conjunct2]
  note T10 = R9 [THEN conjunct1, rule_format]
  note T11 = R9 [THEN conjunct2, THEN conjunct1, rule_format]
  note T12 = R9 [THEN conjunct2, THEN conjunct2, rule_format]

  obtain ok1 view1 st1'
    where r1: "top_next top_disk top_day3_reader no_top_view = (ok1, view1, st1')"
    by (rule prod_cases3)
  have "fst (top_next top_disk top_day3_reader no_top_view) = True" by code_simp
  with r1 have r1': "top_next top_disk top_day3_reader no_top_view = (True, view1, st1')"
    by simp
  obtain ok1b view1b st1b where q1: "top_next top_disk st1' view1 = (ok1b, view1b, st1b)"
    by (rule prod_cases3)
  have "fst (top_next top_disk
               (snd (snd (top_next top_disk top_day3_reader no_top_view)))
               (fst (snd (top_next top_disk top_day3_reader no_top_view)))) = False"
    by code_simp
  with r1 q1 have q1': "top_next top_disk st1' view1 = (False, view1b, st1b)" by simp
  from T1 [OF r1'] T10 [OF q1'] r1' q1'
  have A1: "\<exists>view st'.
      top_next top_disk top_day3_reader no_top_view = (True, view, st') \<and> 1 \<le> tv_n view \<and>
      (\<exists>view' st''. top_next top_disk st' view = (False, view', st'') \<and> view' = view \<and>
         m_fs st'' = None)"
    by simp

  obtain ok2 view2 st2'
    where r2: "trade_next trade_disk trade_day3_reader no_trade_view = (ok2, view2, st2')"
    by (rule prod_cases3)
  have "fst (trade_next trade_disk trade_day3_reader no_trade_view) = True" by code_simp
  with r2 have r2': "trade_next trade_disk trade_day3_reader no_trade_view
                     = (True, view2, st2')"
    by simp
  obtain ok2b view2b st2b
    where q2: "trade_next trade_disk st2' view2 = (ok2b, view2b, st2b)"
    by (rule prod_cases3)
  have "fst (trade_next trade_disk
               (snd (snd (trade_next trade_disk trade_day3_reader no_trade_view)))
               (fst (snd (trade_next trade_disk trade_day3_reader no_trade_view)))) = False"
    by code_simp
  with r2 q2 have q2': "trade_next trade_disk st2' view2 = (False, view2b, st2b)" by simp
  from T2 [OF r2'] T11 [OF q2'] r2' q2'
  have A2: "\<exists>view st'.
      trade_next trade_disk trade_day3_reader no_trade_view = (True, view, st') \<and>
      1 \<le> trv_n view \<and>
      (\<exists>view' st''. trade_next trade_disk st' view = (False, view', st'') \<and> view' = view \<and>
         m_fs st'' = None)"
    by simp

  obtain ok3 view3 st3'
    where r3: "delta_next depth_disk depth_day7_reader no_depth_view = (ok3, view3, st3')"
    by (rule prod_cases3)
  have "fst (delta_next depth_disk depth_day7_reader no_depth_view) = True" by code_simp
  with r3 have r3': "delta_next depth_disk depth_day7_reader no_depth_view
                     = (True, view3, st3')"
    by simp
  have "dv_ts (fst (snd (delta_next depth_disk depth_day7_reader no_depth_view)))
        = Some [1757228400000000000]" by code_simp
  with r3 have v3: "dv_ts view3 = Some [1757228400000000000]" by simp
  obtain ok3b view3b st3b
    where q3: "delta_next depth_disk st3' view3 = (ok3b, view3b, st3b)"
    by (rule prod_cases3)
  have "fst (delta_next depth_disk
               (snd (snd (delta_next depth_disk depth_day7_reader no_depth_view)))
               (fst (snd (delta_next depth_disk depth_day7_reader no_depth_view)))) = False"
    by code_simp
  with r3 q3 have q3': "delta_next depth_disk st3' view3 = (False, view3b, st3b)" by simp
  from T3 [OF r3'] T12 [OF q3'] r3' q3' v3
  have A3: "\<exists>view st'.
      delta_next depth_disk depth_day7_reader no_depth_view = (True, view, st') \<and>
      1 \<le> dv_n view \<and> dv_ts view = Some [1757228400000000000] \<and>
      (\<exists>view' st''. delta_next depth_disk st' view = (False, view', st'') \<and> view' = view \<and>
         m_fs st'' = None)"
    by simp

  have h4: "0 \<le> find_col_idx top_schema ''ts''" by code_simp
  have h4': "read_required_i64_column (row_groups top_file_day3 ! 1)
               (nat (find_col_idx top_schema ''ts''))
             = Inr [1756857600000000030, 1756857600000000040]" by code_simp
  have B1: "top_next_rg 1756857600000000000 1756857600000000020 select_default_top
     \<lparr>fs_file = top_file_day3, rg_idx = 1\<rparr> empty_top_bufs
   = top_next_rg 1756857600000000000 1756857600000000020 select_default_top
       \<lparr>fs_file = top_file_day3, rg_idx = 2\<rparr> empty_top_bufs"
    using T4 [of "\<lparr>fs_file = top_file_day3, rg_idx = 1\<rparr>"
                "[1756857600000000030, 1756857600000000040]"
                1756857600000000000 1756857600000000020 select_default_top empty_top_bufs]
      h4 h4'
    by (simp add: top_file_day3_def in_window_def numeral_2_eq_2)

  have h5: "0 \<le> find_col_idx trade_schema ''ts''" by code_simp
  have h5': "read_required_i64_column (row_groups trade_file_day3 ! 0)
               (nat (find_col_idx trade_schema ''ts''))
             = Inr [1756857600000000001, 1756857600000000002, 1756857600000000003]"
    by code_simp
  have B2: "trade_next_rg 5 6 select_all_trade \<lparr>fs_file = trade_file_day3, rg_idx = 0\<rparr>
     empty_trade_bufs
   = trade_next_rg 5 6 select_all_trade \<lparr>fs_file = trade_file_day3, rg_idx = 1\<rparr>
       empty_trade_bufs"
    using T5 [of "\<lparr>fs_file = trade_file_day3, rg_idx = 0\<rparr>"
                "[1756857600000000001, 1756857600000000002, 1756857600000000003]"
                5 6 select_all_trade empty_trade_bufs]
      h5 h5'
    by (simp add: trade_file_day3_def in_window_def)

  obtain oc where oc: "delta_open_cursors select_all_depth depth_schema
                         (depth_rg_at 1757206800000000000) = oc" by simp
  have "case delta_open_cursors select_all_depth depth_schema
               (depth_rg_at 1757206800000000000) of
          Inl x \<Rightarrow> False
        | Inr cs \<Rightarrow>
            filter (in_window 1757224800000000000 1757289600000000000)
              (row_timestamps 1 cs) = [] \<and>
            (case delta_rows 1 1757224800000000000 1757289600000000000 select_all_depth cs
                    (delta_clear select_all_depth) of
               Inl x \<Rightarrow> False
             | Inr (cs', b') \<Rightarrow> b' = delta_clear select_all_depth)"
    by code_simp
  then obtain cs3 cs3' where
    h6: "delta_open_cursors select_all_depth depth_schema (depth_rg_at 1757206800000000000)
         = Inr cs3"
        "filter (in_window 1757224800000000000 1757289600000000000)
           (row_timestamps 1 cs3) = []"
        "delta_rows 1 1757224800000000000 1757289600000000000 select_all_depth cs3
           (delta_clear select_all_depth) = Inr (cs3', delta_clear select_all_depth)"
    by (auto split: sum.splits)
  have B3: "delta_next_rg 1757224800000000000 1757289600000000000 select_all_depth
     \<lparr>fs_file = depth_file_day7, rg_idx = 0\<rparr> empty_delta_bufs
   = delta_next_rg 1757224800000000000 1757289600000000000 select_all_depth
       \<lparr>fs_file = depth_file_day7, rg_idx = 1\<rparr> (delta_clear select_all_depth)"
    using T6 [of "\<lparr>fs_file = depth_file_day7, rg_idx = 0\<rparr>" select_all_depth cs3
                1757224800000000000 1757289600000000000 cs3' "delta_clear select_all_depth"
                empty_delta_bufs]
      h6
    by (simp add: depth_file_day7_def depth_rg_at_def)

  have C1: "top_next top_disk (Impl_new [] 0 10 select_default_top empty_top_bufs) no_top_view
   = (False, no_top_view, Impl_new [] 0 10 select_default_top empty_top_bufs)"
    by (rule T7) (simp add: Impl_new_def)
  have C2: "trade_next trade_disk (Impl_new [] 0 10 select_all_trade empty_trade_bufs)
              no_trade_view
   = (False, no_trade_view, Impl_new [] 0 10 select_all_trade empty_trade_bufs)"
    by (rule T8) (simp add: Impl_new_def)
  have C3: "delta_next depth_disk (Impl_new [] 0 10 select_all_depth empty_delta_bufs)
              no_depth_view
   = (False, no_depth_view, Impl_new [] 0 10 select_all_depth empty_delta_bufs)"
    by (rule T9) (simp add: Impl_new_def)
  from A1 A2 A3 B1 B2 B3 C1 C2 C3 show ?thesis by blast
qed

subsection \<open>Files that fail\<close>



lemma read_failed_after_open:
  assumes "ensure_open dsk st = Opened fs st1"
  shows "m_fs (read_failed st1 err) = None"
    and "m_file_idx (read_failed st1 err) = m_file_idx st + 1"
    and "m_files (read_failed st1 err) = m_files st"
    and "m_cerr (read_failed st1 err)
         = m_cerr st @ [warn_read_failed (path (m_files st ! m_file_idx st)) err]"
  using ensure_open_Opened_fields [OF assms] by (simp_all add: read_failed_def)



subsection \<open>Files without a required column\<close>

lemma top_next_read_failed:
  assumes "ensure_open dsk st = Opened fs st'"
    and "top_next_rg (m_start_ns st) (m_end_ns st) (m_sel st) fs (m_bufs st) = Inl err"
  shows "top_next dsk st out = top_next dsk (read_failed st' err) out"
proof -
  note f = ensure_open_Opened_fields [OF assms(1)]
  from assms(2) f
  have "top_next_rg (m_start_ns st') (m_end_ns st') (m_sel st') fs (m_bufs st') = Inl err"
    by simp
  with assms(1) show ?thesis by (subst top_next.simps) simp
qed

lemma trade_next_read_failed:
  assumes "ensure_open dsk st = Opened fs st'"
    and "trade_next_rg (m_start_ns st) (m_end_ns st) (m_sel st) fs (m_bufs st) = Inl err"
  shows "trade_next dsk st out = trade_next dsk (read_failed st' err) out"
proof -
  note f = ensure_open_Opened_fields [OF assms(1)]
  from assms(2) f
  have "trade_next_rg (m_start_ns st') (m_end_ns st') (m_sel st') fs (m_bufs st') = Inl err"
    by simp
  with assms(1) show ?thesis by (subst trade_next.simps) simp
qed

lemma delta_next_read_failed:
  assumes "ensure_open dsk st = Opened fs st'"
    and "delta_next_rg (m_start_ns st) (m_end_ns st) (m_sel st) fs (m_bufs st) = Inl err"
  shows "delta_next dsk st out = delta_next dsk (read_failed st' err) out"
proof -
  note f = ensure_open_Opened_fields [OF assms(1)]
  from assms(2) f
  have "delta_next_rg (m_start_ns st') (m_end_ns st') (m_sel st') fs (m_bufs st') = Inl err"
    by simp
  with assms(1) show ?thesis by (subst delta_next.simps) simp
qed

lemma top_next_rg_missing_ts:
  assumes "rg_idx fs < length (row_groups (fs_file fs))"
    and "find_col_idx (schema (fs_file fs)) ''ts'' < 0"
  shows "top_next_rg s e sel fs b = Inl (RuntimeError ''top: missing ts'')"
  using assms by (subst top_next_rg.simps) (simp add: Let_def)

lemma trade_next_rg_missing_ts:
  assumes "rg_idx fs < length (row_groups (fs_file fs))"
    and "find_col_idx (schema (fs_file fs)) ''ts'' < 0"
  shows "trade_next_rg s e sel fs b = Inl (RuntimeError ''trade: missing ts'')"
  using assms by (subst trade_next_rg.simps) (simp add: Let_def)

lemma delta_next_rg_missing_ts:
  assumes "rg_idx fs < length (row_groups (fs_file fs))"
    and "find_col_idx (schema (fs_file fs)) ''ts'' < 0"
  shows "delta_next_rg s e sel fs b = Inl (RuntimeError ''depth: missing ts'')"
  using assms by (subst delta_next_rg.simps) (simp add: Let_def delta_open_cursors_def)

lemma isl_bnd_left: "isl x \<Longrightarrow> isl (bnd x f)"
  by (cases x) (simp_all add: bnd_def)

lemma isl_bnd_right: "(\<And>a. isl (f a)) \<Longrightarrow> isl (bnd x f)"
  by (cases x) (simp_all add: bnd_def)

lemma read_and_scatter_missing:
  "sel \<Longrightarrow> find_col_idx sch name < 0 \<Longrightarrow>
   isl (read_and_scatter is_bool prefix sel sch rg s e ts_all name out_vec)"
  by (simp add: read_and_scatter_def)

lemma open_selected_missing:
  "sel \<Longrightarrow> find_col_idx sch name < 0 \<Longrightarrow> isl (open_selected sel sch rg name msg)"
  by (simp add: open_selected_def)

lemma selected_names_iff:
  "name \<in> set (map snd (filter fst xs)) \<longleftrightarrow> (True, name) \<in> set xs"
  by (induction xs) auto

lemma top_scatter_all_missing:
  assumes "name \<in> set (top_wanted sel)" and "find_col_idx sch name < 0"
  shows "isl (top_scatter_all sel sch rg s e ts_all b)"
proof -
  have L: "\<And>sl nm is_bool prefix out_vec.
             sl \<Longrightarrow> name = nm \<Longrightarrow>
             isl (read_and_scatter is_bool prefix sl sch rg s e ts_all nm out_vec)"
    using assms(2) by (auto simp: read_and_scatter_def)
  from assms(1)
  have D: "(tsel_ask_px sel \<and> name = ''ask_px'') \<or>
          (tsel_ask_qty sel \<and> name = ''ask_qty'') \<or>
          (tsel_bid_px sel \<and> name = ''bid_px'') \<or>
          (tsel_bid_qty sel \<and> name = ''bid_qty'') \<or>
          (tsel_valu sel \<and> name = ''valu'') \<or>
          (tsel_min_bid_px sel \<and> name = ''min_bid_px'') \<or>
          (tsel_max_bid_px sel \<and> name = ''max_bid_px'') \<or>
          (tsel_min_ask_px sel \<and> name = ''min_ask_px'') \<or>
          (tsel_max_ask_px sel \<and> name = ''max_ask_px'') \<or>
          (tsel_min_bid_ts sel \<and> name = ''min_bid_ts'') \<or>
          (tsel_max_bid_ts sel \<and> name = ''max_bid_ts'') \<or>
          (tsel_min_ask_ts sel \<and> name = ''min_ask_ts'') \<or>
          (tsel_max_ask_ts sel \<and> name = ''max_ask_ts'')"
    unfolding top_wanted_def selected_names_iff by simp
  show ?thesis
    unfolding top_scatter_all_def Let_def using D
    apply (elim disjE conjE)
    subgoal by (rule isl_bnd_left, rule L, assumption+)
    subgoal by (rule isl_bnd_right, rule isl_bnd_left, rule L, assumption+)
    subgoal by (rule isl_bnd_right, rule isl_bnd_right, rule isl_bnd_left, rule L, assumption+)
    subgoal by (rule isl_bnd_right, rule isl_bnd_right, rule isl_bnd_right, rule isl_bnd_left, rule L, assumption+)
    subgoal by (rule isl_bnd_right, rule isl_bnd_right, rule isl_bnd_right, rule isl_bnd_right, rule isl_bnd_left, rule L, assumption+)
    subgoal by (rule isl_bnd_right, rule isl_bnd_right, rule isl_bnd_right, rule isl_bnd_right, rule isl_bnd_right, rule isl_bnd_left, rule L, assumption+)
    subgoal by (rule isl_bnd_right, rule isl_bnd_right, rule isl_bnd_right, rule isl_bnd_right, rule isl_bnd_right, rule isl_bnd_right, rule isl_bnd_left, rule L, assumption+)
    subgoal by (rule isl_bnd_right, rule isl_bnd_right, rule isl_bnd_right, rule isl_bnd_right, rule isl_bnd_right, rule isl_bnd_right, rule isl_bnd_right, rule isl_bnd_left, rule L, assumption+)
    subgoal by (rule isl_bnd_right, rule isl_bnd_right, rule isl_bnd_right, rule isl_bnd_right, rule isl_bnd_right, rule isl_bnd_right, rule isl_bnd_right, rule isl_bnd_right, rule isl_bnd_left, rule L, assumption+)
    subgoal by (rule isl_bnd_right, rule isl_bnd_right, rule isl_bnd_right, rule isl_bnd_right, rule isl_bnd_right, rule isl_bnd_right, rule isl_bnd_right, rule isl_bnd_right, rule isl_bnd_right, rule isl_bnd_left, rule L, assumption+)
    subgoal by (rule isl_bnd_right, rule isl_bnd_right, rule isl_bnd_right, rule isl_bnd_right, rule isl_bnd_right, rule isl_bnd_right, rule isl_bnd_right, rule isl_bnd_right, rule isl_bnd_right, rule isl_bnd_right, rule isl_bnd_left, rule L, assumption+)
    subgoal by (rule isl_bnd_right, rule isl_bnd_right, rule isl_bnd_right, rule isl_bnd_right, rule isl_bnd_right, rule isl_bnd_right, rule isl_bnd_right, rule isl_bnd_right, rule isl_bnd_right, rule isl_bnd_right, rule isl_bnd_right, rule isl_bnd_left, rule L, assumption+)
    subgoal by (rule isl_bnd_right, rule isl_bnd_right, rule isl_bnd_right, rule isl_bnd_right, rule isl_bnd_right, rule isl_bnd_right, rule isl_bnd_right, rule isl_bnd_right, rule isl_bnd_right, rule isl_bnd_right, rule isl_bnd_right, rule isl_bnd_right, rule isl_bnd_left, rule L, assumption+)
    done
qed

lemma trade_scatter_all_missing:
  assumes "name \<in> set (trade_wanted sel)" and "find_col_idx sch name < 0"
  shows "isl (trade_scatter_all sel sch rg s e ts_all b)"
proof -
  have L: "\<And>sl nm is_bool prefix out_vec.
             sl \<Longrightarrow> name = nm \<Longrightarrow>
             isl (read_and_scatter is_bool prefix sl sch rg s e ts_all nm out_vec)"
    using assms(2) by (auto simp: read_and_scatter_def)
  from assms(1)
  have D: "(trsel_px sel \<and> name = ''px'') \<or>
          (trsel_qty sel \<and> name = ''qty'') \<or>
          (trsel_tradeId sel \<and> name = ''tradeId'') \<or>
          (trsel_buyerOrderId sel \<and> name = ''buyerOrderId'') \<or>
          (trsel_sellerOrderId sel \<and> name = ''sellerOrderId'') \<or>
          (trsel_tradeTime sel \<and> name = ''tradeTime'') \<or>
          (trsel_isMarket sel \<and> name = ''isMarket'') \<or>
          (trsel_eventTime sel \<and> name = ''eventTime'')"
    unfolding trade_wanted_def selected_names_iff by simp
  show ?thesis
    unfolding trade_scatter_all_def Let_def using D
    apply (elim disjE conjE)
    subgoal by (rule isl_bnd_left, rule L, assumption+)
    subgoal by (rule isl_bnd_right, rule isl_bnd_left, rule L, assumption+)
    subgoal by (rule isl_bnd_right, rule isl_bnd_right, rule isl_bnd_left, rule L, assumption+)
    subgoal by (rule isl_bnd_right, rule isl_bnd_right, rule isl_bnd_right, rule isl_bnd_left, rule L, assumption+)
    subgoal by (rule isl_bnd_right, rule isl_bnd_right, rule isl_bnd_right, rule isl_bnd_right, rule isl_bnd_left, rule L, assumption+)
    subgoal by (rule isl_bnd_right, rule isl_bnd_right, rule isl_bnd_right, rule isl_bnd_right, rule isl_bnd_right, rule isl_bnd_left, rule L, assumption+)
    subgoal by (rule isl_bnd_right, rule isl_bnd_right, rule isl_bnd_right, rule isl_bnd_right, rule isl_bnd_right, rule isl_bnd_right, rule isl_bnd_left, rule L, assumption+)
    subgoal by (rule isl_bnd_right, rule isl_bnd_right, rule isl_bnd_right, rule isl_bnd_right, rule isl_bnd_right, rule isl_bnd_right, rule isl_bnd_right, rule isl_bnd_left, rule L, assumption+)
    done
qed

lemma delta_open_cursors_missing:
  assumes "name \<in> set (delta_wanted sel)" and "find_col_idx sch name < 0"
  shows "isl (delta_open_cursors sel sch rg)"
proof (cases "find_col_idx sch ''ts'' < 0")
  case True
  then show ?thesis by (simp add: delta_open_cursors_def)
next
  case False
  have L: "\<And>sl nm msg. sl \<Longrightarrow> name = nm \<Longrightarrow> isl (open_selected sl sch rg nm msg)"
    using assms(2) by (auto simp: open_selected_def)
  from assms(1)
  have D: "(dsel_firstId sel \<and> name = ''firstId'') \<or>
          (dsel_lastId sel \<and> name = ''lastId'') \<or>
          (dsel_eventTime sel \<and> name = ''eventTime'') \<or>
          (dsel_ask_px sel \<and> name = ''ask.list.element.px'') \<or>
          (dsel_ask_qty sel \<and> name = ''ask.list.element.qty'') \<or>
          (dsel_bid_px sel \<and> name = ''bid.list.element.px'') \<or>
          (dsel_bid_qty sel \<and> name = ''bid.list.element.qty'')"
    unfolding delta_wanted_def selected_names_iff by simp
  have "isl (bnd (cursor_at sch rg (find_col_idx sch ''ts'')) (\<lambda>ts.
           bnd (open_selected (dsel_firstId sel) sch rg ''firstId'' ''depth: missing firstId'') (\<lambda>fid.
           bnd (open_selected (dsel_lastId sel) sch rg ''lastId'' ''depth: missing lastId'') (\<lambda>lid.
           bnd (open_selected (dsel_eventTime sel) sch rg ''eventTime'' ''depth: missing eventTime'') (\<lambda>evt.
           bnd (open_selected (dsel_ask_px sel) sch rg
                  ''ask.list.element.px'' ''depth: missing ask px'') (\<lambda>apx.
           bnd (open_selected (dsel_ask_qty sel) sch rg
                  ''ask.list.element.qty'' ''depth: missing ask qty'') (\<lambda>aqty.
           bnd (open_selected (dsel_bid_px sel) sch rg
                  ''bid.list.element.px'' ''depth: missing bid px'') (\<lambda>bpx.
           bnd (open_selected (dsel_bid_qty sel) sch rg
                  ''bid.list.element.qty'' ''depth: missing bid qty'') (\<lambda>bqty.
           Inr \<lparr>c_ts = ts, c_fid = fid, c_lid = lid, c_evt = evt,
                c_apx = apx, c_aqty = aqty, c_bpx = bpx, c_bqty = bqty\<rparr>)))))))))"
    using D
    apply (elim disjE conjE)
    subgoal by (rule isl_bnd_right, rule isl_bnd_left, rule L, assumption+)
    subgoal by (rule isl_bnd_right, rule isl_bnd_right, rule isl_bnd_left, rule L, assumption+)
    subgoal by (rule isl_bnd_right, rule isl_bnd_right, rule isl_bnd_right, rule isl_bnd_left, rule L, assumption+)
    subgoal by (rule isl_bnd_right, rule isl_bnd_right, rule isl_bnd_right, rule isl_bnd_right, rule isl_bnd_left, rule L, assumption+)
    subgoal by (rule isl_bnd_right, rule isl_bnd_right, rule isl_bnd_right, rule isl_bnd_right, rule isl_bnd_right, rule isl_bnd_left, rule L, assumption+)
    subgoal by (rule isl_bnd_right, rule isl_bnd_right, rule isl_bnd_right, rule isl_bnd_right, rule isl_bnd_right, rule isl_bnd_right, rule isl_bnd_left, rule L, assumption+)
    subgoal by (rule isl_bnd_right, rule isl_bnd_right, rule isl_bnd_right, rule isl_bnd_right, rule isl_bnd_right, rule isl_bnd_right, rule isl_bnd_right, rule isl_bnd_left, rule L, assumption+)
    done
  with False show ?thesis by (simp add: delta_open_cursors_def Let_def)
qed

lemma top_next_rg_missing:
  assumes "rg_idx fs < length (row_groups (fs_file fs))"
    and "0 \<le> find_col_idx (schema (fs_file fs)) ''ts''"
    and "read_required_i64_column (row_groups (fs_file fs) ! rg_idx fs)
           (nat (find_col_idx (schema (fs_file fs)) ''ts'')) = Inr ts_all"
    and "filter (in_window s e) ts_all \<noteq> []"
    and "name \<in> set (top_wanted sel)"
    and "find_col_idx (schema (fs_file fs)) name < 0"
  shows "isl (top_next_rg s e sel fs b)"
proof -
  from assms(4) have c: "count_in_window s e ts_all \<noteq> 0"
    by (simp add: count_in_window_filter)
  let ?b2 = "(top_resize sel (count_in_window s e ts_all) b)
               \<lparr>t_ts := scatter_loop s e ts_all ts_all 0 0
                          (t_ts (top_resize sel (count_in_window s e ts_all) b))\<rparr>"
  from top_scatter_all_missing [OF assms(5,6), where rg = "row_groups (fs_file fs) ! rg_idx fs"
         and s = s and e = e and ts_all = ts_all and b = ?b2]
  obtain x where "top_scatter_all sel (schema (fs_file fs))
                    (row_groups (fs_file fs) ! rg_idx fs) s e ts_all ?b2 = Inl x"
    by (auto simp: isl_def)
  with assms(1-3) c show ?thesis
    by (subst top_next_rg.simps) (simp add: Let_def)
qed

lemma trade_next_rg_missing:
  assumes "rg_idx fs < length (row_groups (fs_file fs))"
    and "0 \<le> find_col_idx (schema (fs_file fs)) ''ts''"
    and "read_required_i64_column (row_groups (fs_file fs) ! rg_idx fs)
           (nat (find_col_idx (schema (fs_file fs)) ''ts'')) = Inr ts_all"
    and "filter (in_window s e) ts_all \<noteq> []"
    and "name \<in> set (trade_wanted sel)"
    and "find_col_idx (schema (fs_file fs)) name < 0"
  shows "isl (trade_next_rg s e sel fs b)"
proof -
  from assms(4) have c: "count_in_window s e ts_all \<noteq> 0"
    by (simp add: count_in_window_filter)
  let ?b2 = "(trade_resize sel (count_in_window s e ts_all) b)
               \<lparr>tr_ts := scatter_loop s e ts_all ts_all 0 0
                           (tr_ts (trade_resize sel (count_in_window s e ts_all) b))\<rparr>"
  from trade_scatter_all_missing [OF assms(5,6), where rg = "row_groups (fs_file fs) ! rg_idx fs"
         and s = s and e = e and ts_all = ts_all and b = ?b2]
  obtain x where "trade_scatter_all sel (schema (fs_file fs))
                    (row_groups (fs_file fs) ! rg_idx fs) s e ts_all ?b2 = Inl x"
    by (auto simp: isl_def)
  with assms(1-3) c show ?thesis
    by (subst trade_next_rg.simps) (simp add: Let_def)
qed

lemma delta_next_rg_missing:
  assumes "rg_idx fs < length (row_groups (fs_file fs))"
    and "name \<in> set (delta_wanted sel)"
    and "find_col_idx (schema (fs_file fs)) name < 0"
  shows "isl (delta_next_rg s e sel fs b)"
proof -
  from delta_open_cursors_missing [OF assms(2,3), where rg = "row_groups (fs_file fs) ! rg_idx fs"]
  obtain x where "delta_open_cursors sel (schema (fs_file fs))
                    (row_groups (fs_file fs) ! rg_idx fs) = Inl x"
    by (auto simp: isl_def)
  with assms(1) show ?thesis
    by (subst delta_next_rg.simps) (simp add: Let_def)
qed

text \<open>
  Claim C4, as the code has it. A file that opens but lacks a column the
  selection needs makes the streamer's \<open>next_rg\<close> throw: \<open>missing ts\<close> as soon as
  a row group is attempted, and an exception for a selected scalar or list
  column that is missing (in the top and trade streamers once the row group has
  a row in the window). The exception is fatal for that file only. It is not
  raised to the caller of \<open>next\<close>: \<open>next\<close> catches it like every other read
  failure, logs \<open>WARN: read failed\<close> with the path and the message, drops the
  file and goes on with the following candidate.
\<close>

theorem missing_column_fails_the_file_only:
  "(rg_idx fs1 < length (row_groups (fs_file fs1)) \<and>
    find_col_idx (schema (fs_file fs1)) ''ts'' < 0 \<longrightarrow>
      top_next_rg s1 e1 sel1 fs1 b1 = Inl (RuntimeError ''top: missing ts'')) \<and>
   (rg_idx fs2 < length (row_groups (fs_file fs2)) \<and>
    find_col_idx (schema (fs_file fs2)) ''ts'' < 0 \<longrightarrow>
      trade_next_rg s2 e2 sel2 fs2 b2 = Inl (RuntimeError ''trade: missing ts'')) \<and>
   (rg_idx fs3 < length (row_groups (fs_file fs3)) \<and>
    find_col_idx (schema (fs_file fs3)) ''ts'' < 0 \<longrightarrow>
      delta_next_rg s3 e3 sel3 fs3 b3 = Inl (RuntimeError ''depth: missing ts'')) \<and>
   (rg_idx fs4 < length (row_groups (fs_file fs4)) \<and>
    0 \<le> find_col_idx (schema (fs_file fs4)) ''ts'' \<and>
    read_required_i64_column (row_groups (fs_file fs4) ! rg_idx fs4)
      (nat (find_col_idx (schema (fs_file fs4)) ''ts'')) = Inr ts4 \<and>
    filter (in_window s4 e4) ts4 \<noteq> [] \<and>
    name4 \<in> set (top_wanted sel4) \<and> find_col_idx (schema (fs_file fs4)) name4 < 0 \<longrightarrow>
      isl (top_next_rg s4 e4 sel4 fs4 b4)) \<and>
   (rg_idx fs5 < length (row_groups (fs_file fs5)) \<and>
    0 \<le> find_col_idx (schema (fs_file fs5)) ''ts'' \<and>
    read_required_i64_column (row_groups (fs_file fs5) ! rg_idx fs5)
      (nat (find_col_idx (schema (fs_file fs5)) ''ts'')) = Inr ts5 \<and>
    filter (in_window s5 e5) ts5 \<noteq> [] \<and>
    name5 \<in> set (trade_wanted sel5) \<and> find_col_idx (schema (fs_file fs5)) name5 < 0 \<longrightarrow>
      isl (trade_next_rg s5 e5 sel5 fs5 b5)) \<and>
   (rg_idx fs6 < length (row_groups (fs_file fs6)) \<and>
    name6 \<in> set (delta_wanted sel6) \<and> find_col_idx (schema (fs_file fs6)) name6 < 0 \<longrightarrow>
      isl (delta_next_rg s6 e6 sel6 fs6 b6)) \<and>
   (ensure_open dsk7 st7 = Opened fs7 st7' \<and>
    top_next_rg (m_start_ns st7) (m_end_ns st7) (m_sel st7) fs7 (m_bufs st7) = Inl err7 \<longrightarrow>
      top_next dsk7 st7 out7 = top_next dsk7 (read_failed st7' err7) out7 \<and>
      m_fs (read_failed st7' err7) = None \<and>
      m_file_idx (read_failed st7' err7) = m_file_idx st7 + 1 \<and>
      m_cerr (read_failed st7' err7)
      = m_cerr st7 @ [warn_read_failed (path (m_files st7 ! m_file_idx st7)) err7]) \<and>
   (ensure_open dsk8 st8 = Opened fs8 st8' \<and>
    trade_next_rg (m_start_ns st8) (m_end_ns st8) (m_sel st8) fs8 (m_bufs st8) = Inl err8 \<longrightarrow>
      trade_next dsk8 st8 out8 = trade_next dsk8 (read_failed st8' err8) out8 \<and>
      m_fs (read_failed st8' err8) = None \<and>
      m_file_idx (read_failed st8' err8) = m_file_idx st8 + 1 \<and>
      m_cerr (read_failed st8' err8)
      = m_cerr st8 @ [warn_read_failed (path (m_files st8 ! m_file_idx st8)) err8]) \<and>
   (ensure_open dsk9 st9 = Opened fs9 st9' \<and>
    delta_next_rg (m_start_ns st9) (m_end_ns st9) (m_sel st9) fs9 (m_bufs st9) = Inl err9 \<longrightarrow>
      delta_next dsk9 st9 out9 = delta_next dsk9 (read_failed st9' err9) out9 \<and>
      m_fs (read_failed st9' err9) = None \<and>
      m_file_idx (read_failed st9' err9) = m_file_idx st9 + 1 \<and>
      m_cerr (read_failed st9' err9)
      = m_cerr st9 @ [warn_read_failed (path (m_files st9 ! m_file_idx st9)) err9])"
proof (intro conjI impI)
  assume a: "rg_idx fs1 < length (row_groups (fs_file fs1)) \<and>
    find_col_idx (schema (fs_file fs1)) ''ts'' < 0"
  show "top_next_rg s1 e1 sel1 fs1 b1 = Inl (RuntimeError ''top: missing ts'')"
    by (rule top_next_rg_missing_ts [OF a [THEN conjunct1] a [THEN conjunct2]])
next
  assume a: "rg_idx fs2 < length (row_groups (fs_file fs2)) \<and>
    find_col_idx (schema (fs_file fs2)) ''ts'' < 0"
  show "trade_next_rg s2 e2 sel2 fs2 b2 = Inl (RuntimeError ''trade: missing ts'')"
    by (rule trade_next_rg_missing_ts [OF a [THEN conjunct1] a [THEN conjunct2]])
next
  assume a: "rg_idx fs3 < length (row_groups (fs_file fs3)) \<and>
    find_col_idx (schema (fs_file fs3)) ''ts'' < 0"
  show "delta_next_rg s3 e3 sel3 fs3 b3 = Inl (RuntimeError ''depth: missing ts'')"
    by (rule delta_next_rg_missing_ts [OF a [THEN conjunct1] a [THEN conjunct2]])
next
  assume a: "rg_idx fs4 < length (row_groups (fs_file fs4)) \<and>
    0 \<le> find_col_idx (schema (fs_file fs4)) ''ts'' \<and>
    read_required_i64_column (row_groups (fs_file fs4) ! rg_idx fs4)
      (nat (find_col_idx (schema (fs_file fs4)) ''ts'')) = Inr ts4 \<and>
    filter (in_window s4 e4) ts4 \<noteq> [] \<and>
    name4 \<in> set (top_wanted sel4) \<and> find_col_idx (schema (fs_file fs4)) name4 < 0"
  show "isl (top_next_rg s4 e4 sel4 fs4 b4)"
    by (rule top_next_rg_missing
          [OF a [THEN conjunct1] a [THEN conjunct2, THEN conjunct1]
              a [THEN conjunct2, THEN conjunct2, THEN conjunct1]
              a [THEN conjunct2, THEN conjunct2, THEN conjunct2, THEN conjunct1]
              a [THEN conjunct2, THEN conjunct2, THEN conjunct2, THEN conjunct2, THEN conjunct1]
              a [THEN conjunct2, THEN conjunct2, THEN conjunct2, THEN conjunct2,
                 THEN conjunct2]])
next
  assume a: "rg_idx fs5 < length (row_groups (fs_file fs5)) \<and>
    0 \<le> find_col_idx (schema (fs_file fs5)) ''ts'' \<and>
    read_required_i64_column (row_groups (fs_file fs5) ! rg_idx fs5)
      (nat (find_col_idx (schema (fs_file fs5)) ''ts'')) = Inr ts5 \<and>
    filter (in_window s5 e5) ts5 \<noteq> [] \<and>
    name5 \<in> set (trade_wanted sel5) \<and> find_col_idx (schema (fs_file fs5)) name5 < 0"
  show "isl (trade_next_rg s5 e5 sel5 fs5 b5)"
    by (rule trade_next_rg_missing
          [OF a [THEN conjunct1] a [THEN conjunct2, THEN conjunct1]
              a [THEN conjunct2, THEN conjunct2, THEN conjunct1]
              a [THEN conjunct2, THEN conjunct2, THEN conjunct2, THEN conjunct1]
              a [THEN conjunct2, THEN conjunct2, THEN conjunct2, THEN conjunct2, THEN conjunct1]
              a [THEN conjunct2, THEN conjunct2, THEN conjunct2, THEN conjunct2,
                 THEN conjunct2]])
next
  assume a: "rg_idx fs6 < length (row_groups (fs_file fs6)) \<and>
    name6 \<in> set (delta_wanted sel6) \<and> find_col_idx (schema (fs_file fs6)) name6 < 0"
  show "isl (delta_next_rg s6 e6 sel6 fs6 b6)"
    by (rule delta_next_rg_missing
          [OF a [THEN conjunct1] a [THEN conjunct2, THEN conjunct1]
              a [THEN conjunct2, THEN conjunct2]])
next
  assume a: "ensure_open dsk7 st7 = Opened fs7 st7' \<and>
    top_next_rg (m_start_ns st7) (m_end_ns st7) (m_sel st7) fs7 (m_bufs st7) = Inl err7"
  show "top_next dsk7 st7 out7 = top_next dsk7 (read_failed st7' err7) out7"
    by (rule top_next_read_failed [OF a [THEN conjunct1] a [THEN conjunct2]])
  from read_failed_after_open [OF a [THEN conjunct1]]
  show "m_fs (read_failed st7' err7) = None"
    and "m_file_idx (read_failed st7' err7) = m_file_idx st7 + 1"
    and "m_cerr (read_failed st7' err7)
         = m_cerr st7 @ [warn_read_failed (path (m_files st7 ! m_file_idx st7)) err7]"
    by simp_all
next
  assume a: "ensure_open dsk8 st8 = Opened fs8 st8' \<and>
    trade_next_rg (m_start_ns st8) (m_end_ns st8) (m_sel st8) fs8 (m_bufs st8) = Inl err8"
  show "trade_next dsk8 st8 out8 = trade_next dsk8 (read_failed st8' err8) out8"
    by (rule trade_next_read_failed [OF a [THEN conjunct1] a [THEN conjunct2]])
  from read_failed_after_open [OF a [THEN conjunct1]]
  show "m_fs (read_failed st8' err8) = None"
    and "m_file_idx (read_failed st8' err8) = m_file_idx st8 + 1"
    and "m_cerr (read_failed st8' err8)
         = m_cerr st8 @ [warn_read_failed (path (m_files st8 ! m_file_idx st8)) err8]"
    by simp_all
next
  assume a: "ensure_open dsk9 st9 = Opened fs9 st9' \<and>
    delta_next_rg (m_start_ns st9) (m_end_ns st9) (m_sel st9) fs9 (m_bufs st9) = Inl err9"
  show "delta_next dsk9 st9 out9 = delta_next dsk9 (read_failed st9' err9) out9"
    by (rule delta_next_read_failed [OF a [THEN conjunct1] a [THEN conjunct2]])
  from read_failed_after_open [OF a [THEN conjunct1]]
  show "m_fs (read_failed st9' err9) = None"
    and "m_file_idx (read_failed st9' err9) = m_file_idx st9 + 1"
    and "m_cerr (read_failed st9' err9)
         = m_cerr st9 @ [warn_read_failed (path (m_files st9 ! m_file_idx st9)) err9]"
    by simp_all
qed

text \<open>
  As the claim states it, the missing column would be raised to the caller of
  \<open>next\<close>. On the reader \<open>get_top_cols\<close> builds for 2025-09-04 and 2025-09-05,
  where the first file has no \<open>ts\<close> column, \<open>next\<close> returns true with the row
  of the second file; the missing column is a line of the log.
\<close>

theorem missing_column_is_not_raised_to_the_caller:
  "get_top_cols top_exists data_db (sept_ns 4) (sept_ns 6) ''BTCUSDT'' (Some ''spot'')
     select_default_top = Inr top_two_day_reader \<and>
   top_disk (top_path 4) = Inr top_file_day4 \<and>
   find_col_idx (schema top_file_day4) ''ts'' = - 1 \<and>
   fst (top_next top_disk top_two_day_reader no_top_view) = True \<and>
   tv_n (fst (snd (top_next top_disk top_two_day_reader no_top_view))) = 1 \<and>
   tv_ts (fst (snd (top_next top_disk top_two_day_reader no_top_view)))
   = Some [1757030400000000005] \<and>
   tv_file (fst (snd (top_next top_disk top_two_day_reader no_top_view)))
   = ''bn_top_spot_BTCUSDT_2025_9_5.parquet'' \<and>
   m_cerr (snd (snd (top_next top_disk top_two_day_reader no_top_view)))
   = [''WARN: read failed: /data/top_spot/BTCUSDT/2025/9/bn_top_spot_BTCUSDT_2025_9_4.parquet : top: missing ts'']"
  by (intro conjI; code_simp)

theorem missing_column_fails_the_file_only_witness:
  "top_next_rg (sept_ns 4) (sept_ns 6) select_default_top
     \<lparr>fs_file = top_file_day4, rg_idx = 0\<rparr> empty_top_bufs
   = Inl (RuntimeError ''top: missing ts'') \<and>
   trade_next_rg (sept_ns 3) (sept_ns 8) select_all_trade
     \<lparr>fs_file = trade_file_day4, rg_idx = 0\<rparr> empty_trade_bufs
   = Inl (RuntimeError ''trade: missing ts'') \<and>
   delta_next_rg (sept_ns 3) (sept_ns 8) select_all_depth
     \<lparr>fs_file = depth_file_day6, rg_idx = 0\<rparr> empty_delta_bufs
   = Inl (RuntimeError ''depth: missing ts'') \<and>
   isl (top_next_rg 0 10 select_default_top \<lparr>fs_file = top_file_ts_only, rg_idx = 0\<rparr>
          empty_top_bufs) \<and>
   isl (trade_next_rg 0 10 select_all_trade \<lparr>fs_file = top_file_ts_only, rg_idx = 0\<rparr>
          empty_trade_bufs) \<and>
   isl (delta_next_rg 0 10 select_all_depth \<lparr>fs_file = top_file_ts_only, rg_idx = 0\<rparr>
          empty_delta_bufs) \<and>
   fst (top_next top_disk top_two_day_reader no_top_view) = True \<and>
   tv_file (fst (snd (top_next top_disk top_two_day_reader no_top_view)))
   = ''bn_top_spot_BTCUSDT_2025_9_5.parquet'' \<and>
   m_cerr (snd (snd (top_next top_disk top_two_day_reader no_top_view)))
   = [''WARN: read failed: '' @ top_path 4 @ '' : top: missing ts''] \<and>
   fst (trade_next trade_disk (Impl_new (map trade_candidate [4, 3]) (sept_ns 3) (sept_ns 8)
          select_all_trade empty_trade_bufs) no_trade_view) = True \<and>
   trv_file (fst (snd (trade_next trade_disk
       (Impl_new (map trade_candidate [4, 3]) (sept_ns 3) (sept_ns 8)
          select_all_trade empty_trade_bufs) no_trade_view)))
   = ''bn_trade_spot_BTCUSDT_2025_9_3.parquet'' \<and>
   m_cerr (snd (snd (trade_next trade_disk
       (Impl_new (map trade_candidate [4, 3]) (sept_ns 3) (sept_ns 8)
          select_all_trade empty_trade_bufs) no_trade_view)))
   = [''WARN: read failed: '' @ trade_path 4 @ '' : trade: missing ts''] \<and>
   fst (delta_next depth_disk (depth_week_reader\<lparr>m_file_idx := 3\<rparr>) no_depth_view) = True \<and>
   dv_file (fst (snd (delta_next depth_disk (depth_week_reader\<lparr>m_file_idx := 3\<rparr>)
                        no_depth_view)))
   = ''bn_depth_spot_BTCUSDT_2025_9_7.parquet'' \<and>
   m_cerr (snd (snd (delta_next depth_disk (depth_week_reader\<lparr>m_file_idx := 3\<rparr>)
                       no_depth_view)))
   = [''WARN: read failed: '' @ depth_path 6 @ '' : depth: missing ts'']"
proof -
  note T = missing_column_fails_the_file_only
  note T1 = T [THEN conjunct1, rule_format]
  note T2 = T [THEN conjunct2, THEN conjunct1, rule_format]
  note T3 = T [THEN conjunct2, THEN conjunct2, THEN conjunct1, rule_format]
  note R3 = T [THEN conjunct2, THEN conjunct2, THEN conjunct2]
  note T4 = R3 [THEN conjunct1, rule_format]
  note T5 = R3 [THEN conjunct2, THEN conjunct1, rule_format]
  note T6 = R3 [THEN conjunct2, THEN conjunct2, THEN conjunct1, rule_format]
  note R6 = R3 [THEN conjunct2, THEN conjunct2, THEN conjunct2]
  note T7 = R6 [THEN conjunct1, rule_format]
  note T8 = R6 [THEN conjunct2, THEN conjunct1, rule_format]
  note T9 = R6 [THEN conjunct2, THEN conjunct2, rule_format]

  have m1: "find_col_idx (schema top_file_day4) ''ts'' < 0" by code_simp
  have a1: "top_next_rg (sept_ns 4) (sept_ns 6) select_default_top
     \<lparr>fs_file = top_file_day4, rg_idx = 0\<rparr> empty_top_bufs
   = Inl (RuntimeError ''top: missing ts'')"
    by (rule T1) (simp add: m1, simp add: top_file_day4_def)
  have m2: "find_col_idx (schema trade_file_day4) ''ts'' < 0" by code_simp
  have a2: "trade_next_rg (sept_ns 3) (sept_ns 8) select_all_trade
     \<lparr>fs_file = trade_file_day4, rg_idx = 0\<rparr> empty_trade_bufs
   = Inl (RuntimeError ''trade: missing ts'')"
    by (rule T2) (simp add: m2, simp add: trade_file_day4_def trade_file_day3_def)
  have m3: "find_col_idx (schema depth_file_day6) ''ts'' < 0" by code_simp
  have a3: "delta_next_rg (sept_ns 3) (sept_ns 8) select_all_depth
     \<lparr>fs_file = depth_file_day6, rg_idx = 0\<rparr> empty_delta_bufs
   = Inl (RuntimeError ''depth: missing ts'')"
    by (rule T3) (simp add: m3, simp add: depth_file_day6_def)

  have k: "0 \<le> find_col_idx (schema top_file_ts_only) ''ts''"
          "read_required_i64_column (row_groups top_file_ts_only ! 0)
             (nat (find_col_idx (schema top_file_ts_only) ''ts'')) = Inr [5]"
          "find_col_idx (schema top_file_ts_only) ''ask_px'' < 0"
          "find_col_idx (schema top_file_ts_only) ''px'' < 0"
          "find_col_idx (schema top_file_ts_only) ''firstId'' < 0"
    by code_simp+
  have l: "length (row_groups top_file_ts_only) = 1" by (simp add: top_file_ts_only_def)
  have w: "''ask_px'' \<in> set (top_wanted select_default_top)"
          "''px'' \<in> set (trade_wanted select_all_trade)"
          "''firstId'' \<in> set (delta_wanted select_all_depth)"
    by (simp_all add: top_wanted_def trade_wanted_def delta_wanted_def
          select_default_top_def select_all_trade_def select_all_depth_def)
  have a4: "isl (top_next_rg 0 10 select_default_top
                   \<lparr>fs_file = top_file_ts_only, rg_idx = 0\<rparr> empty_top_bufs)"
    using k l w
    by (intro T4 [where ?ts4.0 = "[5]" and ?name4.0 = "''ask_px''"])
       (simp add: in_window_def)
  have a5: "isl (trade_next_rg 0 10 select_all_trade
                   \<lparr>fs_file = top_file_ts_only, rg_idx = 0\<rparr> empty_trade_bufs)"
    using k l w
    by (intro T5 [where ?ts5.0 = "[5]" and ?name5.0 = "''px''"])
       (simp add: in_window_def)
  have a6: "isl (delta_next_rg 0 10 select_all_depth
                   \<lparr>fs_file = top_file_ts_only, rg_idx = 0\<rparr> empty_delta_bufs)"
    using k l w
    by (intro T6 [where ?name6.0 = "''firstId''"]) simp

  have "case ensure_open top_disk (top_two_day_reader) of
          Opened fs st' \<Rightarrow>
            top_next_rg (m_start_ns (top_two_day_reader)) (m_end_ns (top_two_day_reader)) (m_sel (top_two_day_reader)) fs
              (m_bufs (top_two_day_reader)) = Inl (RuntimeError ''top: missing ts'') \<and>
            fst (top_next top_disk (read_failed st' (RuntimeError ''top: missing ts'')) no_top_view) = True \<and>
            tv_file (fst (snd (top_next top_disk (read_failed st' (RuntimeError ''top: missing ts'')) no_top_view)))
            = ''bn_top_spot_BTCUSDT_2025_9_5.parquet'' \<and>
            m_cerr (snd (snd (top_next top_disk (read_failed st' (RuntimeError ''top: missing ts'')) no_top_view)))
            = [''WARN: read failed: '' @ top_path 4 @ '' : top: missing ts'']
        | _ \<Rightarrow> False"
    by code_simp
  then obtain fsa sta where
    oa: "ensure_open top_disk (top_two_day_reader) = Opened fsa sta"
    and ea: "top_next_rg (m_start_ns (top_two_day_reader)) (m_end_ns (top_two_day_reader)) (m_sel (top_two_day_reader)) fsa
              (m_bufs (top_two_day_reader)) = Inl (RuntimeError ''top: missing ts'')"
    and ra: "fst (top_next top_disk (read_failed sta (RuntimeError ''top: missing ts'')) no_top_view) = True"
         "tv_file (fst (snd (top_next top_disk (read_failed sta (RuntimeError ''top: missing ts'')) no_top_view)))
          = ''bn_top_spot_BTCUSDT_2025_9_5.parquet''"
         "m_cerr (snd (snd (top_next top_disk (read_failed sta (RuntimeError ''top: missing ts'')) no_top_view)))
          = [''WARN: read failed: '' @ top_path 4 @ '' : top: missing ts'']"
    by (auto split: opened.splits)
  from T7 [of top_disk "top_two_day_reader" fsa sta "RuntimeError ''top: missing ts''" no_top_view] oa ea
  have sa: "top_next top_disk (top_two_day_reader) no_top_view
            = top_next top_disk (read_failed sta (RuntimeError ''top: missing ts'')) no_top_view"
    by simp

  have "case ensure_open trade_disk (Impl_new (map trade_candidate [4, 3]) (sept_ns 3) (sept_ns 8)
          select_all_trade empty_trade_bufs) of
          Opened fs st' \<Rightarrow>
            trade_next_rg (m_start_ns (Impl_new (map trade_candidate [4, 3]) (sept_ns 3) (sept_ns 8)
          select_all_trade empty_trade_bufs)) (m_end_ns (Impl_new (map trade_candidate [4, 3]) (sept_ns 3) (sept_ns 8)
          select_all_trade empty_trade_bufs)) (m_sel (Impl_new (map trade_candidate [4, 3]) (sept_ns 3) (sept_ns 8)
          select_all_trade empty_trade_bufs)) fs
              (m_bufs (Impl_new (map trade_candidate [4, 3]) (sept_ns 3) (sept_ns 8)
          select_all_trade empty_trade_bufs)) = Inl (RuntimeError ''trade: missing ts'') \<and>
            fst (trade_next trade_disk (read_failed st' (RuntimeError ''trade: missing ts'')) no_trade_view) = True \<and>
            trv_file (fst (snd (trade_next trade_disk (read_failed st' (RuntimeError ''trade: missing ts'')) no_trade_view)))
            = ''bn_trade_spot_BTCUSDT_2025_9_3.parquet'' \<and>
            m_cerr (snd (snd (trade_next trade_disk (read_failed st' (RuntimeError ''trade: missing ts'')) no_trade_view)))
            = [''WARN: read failed: '' @ trade_path 4 @ '' : trade: missing ts'']
        | _ \<Rightarrow> False"
    by code_simp
  then obtain fsb stb where
    ob: "ensure_open trade_disk (Impl_new (map trade_candidate [4, 3]) (sept_ns 3) (sept_ns 8)
          select_all_trade empty_trade_bufs) = Opened fsb stb"
    and eb: "trade_next_rg (m_start_ns (Impl_new (map trade_candidate [4, 3]) (sept_ns 3) (sept_ns 8)
          select_all_trade empty_trade_bufs)) (m_end_ns (Impl_new (map trade_candidate [4, 3]) (sept_ns 3) (sept_ns 8)
          select_all_trade empty_trade_bufs)) (m_sel (Impl_new (map trade_candidate [4, 3]) (sept_ns 3) (sept_ns 8)
          select_all_trade empty_trade_bufs)) fsb
              (m_bufs (Impl_new (map trade_candidate [4, 3]) (sept_ns 3) (sept_ns 8)
          select_all_trade empty_trade_bufs)) = Inl (RuntimeError ''trade: missing ts'')"
    and rb: "fst (trade_next trade_disk (read_failed stb (RuntimeError ''trade: missing ts'')) no_trade_view) = True"
         "trv_file (fst (snd (trade_next trade_disk (read_failed stb (RuntimeError ''trade: missing ts'')) no_trade_view)))
          = ''bn_trade_spot_BTCUSDT_2025_9_3.parquet''"
         "m_cerr (snd (snd (trade_next trade_disk (read_failed stb (RuntimeError ''trade: missing ts'')) no_trade_view)))
          = [''WARN: read failed: '' @ trade_path 4 @ '' : trade: missing ts'']"
    by (auto split: opened.splits)
  from T8 [of trade_disk "Impl_new (map trade_candidate [4, 3]) (sept_ns 3) (sept_ns 8)
          select_all_trade empty_trade_bufs" fsb stb "RuntimeError ''trade: missing ts''" no_trade_view] ob eb
  have sb: "trade_next trade_disk (Impl_new (map trade_candidate [4, 3]) (sept_ns 3) (sept_ns 8)
          select_all_trade empty_trade_bufs) no_trade_view
            = trade_next trade_disk (read_failed stb (RuntimeError ''trade: missing ts'')) no_trade_view"
    by simp

  have "case ensure_open depth_disk (depth_week_reader\<lparr>m_file_idx := 3\<rparr>) of
          Opened fs st' \<Rightarrow>
            delta_next_rg (m_start_ns (depth_week_reader\<lparr>m_file_idx := 3\<rparr>)) (m_end_ns (depth_week_reader\<lparr>m_file_idx := 3\<rparr>)) (m_sel (depth_week_reader\<lparr>m_file_idx := 3\<rparr>)) fs
              (m_bufs (depth_week_reader\<lparr>m_file_idx := 3\<rparr>)) = Inl (RuntimeError ''depth: missing ts'') \<and>
            fst (delta_next depth_disk (read_failed st' (RuntimeError ''depth: missing ts'')) no_depth_view) = True \<and>
            dv_file (fst (snd (delta_next depth_disk (read_failed st' (RuntimeError ''depth: missing ts'')) no_depth_view)))
            = ''bn_depth_spot_BTCUSDT_2025_9_7.parquet'' \<and>
            m_cerr (snd (snd (delta_next depth_disk (read_failed st' (RuntimeError ''depth: missing ts'')) no_depth_view)))
            = [''WARN: read failed: '' @ depth_path 6 @ '' : depth: missing ts'']
        | _ \<Rightarrow> False"
    by code_simp
  then obtain fsc stc where
    oc: "ensure_open depth_disk (depth_week_reader\<lparr>m_file_idx := 3\<rparr>) = Opened fsc stc"
    and ec: "delta_next_rg (m_start_ns (depth_week_reader\<lparr>m_file_idx := 3\<rparr>)) (m_end_ns (depth_week_reader\<lparr>m_file_idx := 3\<rparr>)) (m_sel (depth_week_reader\<lparr>m_file_idx := 3\<rparr>)) fsc
              (m_bufs (depth_week_reader\<lparr>m_file_idx := 3\<rparr>)) = Inl (RuntimeError ''depth: missing ts'')"
    and rc: "fst (delta_next depth_disk (read_failed stc (RuntimeError ''depth: missing ts'')) no_depth_view) = True"
         "dv_file (fst (snd (delta_next depth_disk (read_failed stc (RuntimeError ''depth: missing ts'')) no_depth_view)))
          = ''bn_depth_spot_BTCUSDT_2025_9_7.parquet''"
         "m_cerr (snd (snd (delta_next depth_disk (read_failed stc (RuntimeError ''depth: missing ts'')) no_depth_view)))
          = [''WARN: read failed: '' @ depth_path 6 @ '' : depth: missing ts'']"
    by (auto split: opened.splits)
  from T9 [of depth_disk "depth_week_reader\<lparr>m_file_idx := 3\<rparr>" fsc stc "RuntimeError ''depth: missing ts''" no_depth_view] oc ec
  have sc: "delta_next depth_disk (depth_week_reader\<lparr>m_file_idx := 3\<rparr>) no_depth_view
            = delta_next depth_disk (read_failed stc (RuntimeError ''depth: missing ts'')) no_depth_view"
    by simp

  from a1 a2 a3 a4 a5 a6 sa ra sb rb sc rc show ?thesis by simp
qed

subsection \<open>The market token\<close>

lemma day_loop_append_aux:
  "nat (end_floor - cur + 1) = n \<Longrightarrow>
   day_loop ex root symb base_type mkt cur end_floor out
   = out @ day_loop ex root symb base_type mkt cur end_floor []"
proof (induction n arbitrary: cur out rule: less_induct)
  case (less n)
  show ?case
  proof (cases "cur \<le> end_floor")
    case False
    then show ?thesis by (simp add: day_loop.simps)
  next
    case True
    let ?ymd = "ymd_utc_from_ns cur"
    let ?p = "day_path root symb base_type mkt ?ymd"
    let ?c = "\<lparr>path = ?p,
               file_start_ns = ymd_utc_start_ns (year ?ymd) (month ?ymd) (day ?ymd),
               file_end_ns = ymd_utc_start_ns (year ?ymd) (month ?ymd) (day ?ymd) + day_ns\<rparr>"
    let ?o1 = "if ex ?p then out @ [?c] else out"
    let ?o2 = "if ex ?p then [?c] else []"
    have a: "day_loop ex root symb base_type mkt cur end_floor out
             = day_loop ex root symb base_type mkt (cur + day_ns) end_floor ?o1"
      using True by (subst day_loop.simps) (simp add: Let_def)
    have b: "day_loop ex root symb base_type mkt cur end_floor []
             = day_loop ex root symb base_type mkt (cur + day_ns) end_floor ?o2"
      using True by (subst day_loop.simps) (simp add: Let_def)
    from True less.prems have m: "nat (end_floor - (cur + day_ns) + 1) < n"
      by (auto simp: day_ns_def)
    have c: "day_loop ex root symb base_type mkt (cur + day_ns) end_floor ?o1
             = ?o1 @ day_loop ex root symb base_type mkt (cur + day_ns) end_floor []"
      by (rule less.IH [OF m refl])
    have d: "day_loop ex root symb base_type mkt (cur + day_ns) end_floor ?o2
             = ?o2 @ day_loop ex root symb base_type mkt (cur + day_ns) end_floor []"
      by (rule less.IH [OF m refl])
    from a b c d show ?thesis by simp
  qed
qed

lemma day_loop_append:
  "day_loop ex root symb base_type mkt cur end_floor out
   = out @ day_loop ex root symb base_type mkt cur end_floor []"
  by (rule day_loop_append_aux [OF refl])

lemma norm_market_cases:
  "norm_market (Some tok)
   = (if to_lower tok = ''spot'' then Some ''spot''
      else if to_lower tok = ''fut'' \<or> to_lower tok = ''futures'' \<or> to_lower tok = ''future''
      then Some ''fut'' else None)"
  by (simp add: norm_market_def Let_def)

lemma candidate_files_strict_market:
  assumes "s < e"
  shows "candidate_files_strict ex root symb base_type (Some tok) s e smp
         = (if to_lower tok = ''spot''
            then Inr (day_loop ex root symb base_type ''spot''
                        (floor_day_ns s) (floor_day_ns (e - 1)) [])
            else if to_lower tok = ''fut'' \<or> to_lower tok = ''futures'' \<or>
                    to_lower tok = ''future''
            then Inr (day_loop ex root symb base_type ''fut''
                        (floor_day_ns s) (floor_day_ns (e - 1)) [])
            else Inl (RuntimeError market_error))"
  using assms
  by (simp add: candidate_files_strict_def norm_market_cases bnd_def Let_def)

lemma candidate_files_strict_no_market:
  assumes "s < e"
  shows "candidate_files_strict ex root symb base_type None s e smp
         = Inr (day_loop ex root symb base_type ''fut''
                  (floor_day_ns s) (floor_day_ns (e - 1)) [] @
                day_loop ex root symb base_type ''spot''
                  (floor_day_ns s) (floor_day_ns (e - 1)) [])"
  using assms
    day_loop_append [of ex root symb base_type "''spot''" "floor_day_ns s" "floor_day_ns (e - 1)"
      "day_loop ex root symb base_type ''fut'' (floor_day_ns s) (floor_day_ns (e - 1)) []"]
  by (simp add: candidate_files_strict_def bnd_def Let_def)

lemma candidate_files_strict_empty_window:
  assumes "e \<le> s"
  shows "candidate_files_strict ex root symb base_type market s e smp = Inr []"
  using assms by (simp add: candidate_files_strict_def)

text \<open>
  Claim C10, as the code has it. For a window with \<open>s < e\<close>, in each of
  \<open>get_top_cols\<close>, \<open>get_trade_cols\<close> and \<open>get_depth_cols\<close>: an explicit market
  token is lower-cased first; \<open>spot\<close> searches the spot market, \<open>fut\<close>, \<open>futures\<close>
  and \<open>future\<close> search the market \<open>fut\<close>; every other token makes the call
  itself raise the runtime error \<open>market must be 'fut' or 'spot'\<close>, whatever
  files exist, and no reader is built; without a token the candidates of \<open>fut\<close>
  are listed first and those of \<open>spot\<close> after them. For a window with
  \<open>e \<le> s\<close> the token is not looked at: the call returns a reader without
  candidates.
\<close>

theorem market_token_is_normalised:
  "(s < e \<longrightarrow>
      get_top_cols ex db s e symb (Some tok) sel1
      = (if to_lower tok = ''spot''
         then Inr (Impl_new (day_loop ex (root_dir db) symb ''top'' ''spot''
                               (floor_day_ns s) (floor_day_ns (e - 1)) [])
                     s e sel1 empty_top_bufs)
         else if to_lower tok = ''fut'' \<or> to_lower tok = ''futures'' \<or>
                 to_lower tok = ''future''
         then Inr (Impl_new (day_loop ex (root_dir db) symb ''top'' ''fut''
                               (floor_day_ns s) (floor_day_ns (e - 1)) [])
                     s e sel1 empty_top_bufs)
         else Inl (RuntimeError market_error)) \<and>
      get_trade_cols ex db s e symb (Some tok) sel2
      = (if to_lower tok = ''spot''
         then Inr (Impl_new (day_loop ex (root_dir db) symb ''trade'' ''spot''
                               (floor_day_ns s) (floor_day_ns (e - 1)) [])
                     s e sel2 empty_trade_bufs)
         else if to_lower tok = ''fut'' \<or> to_lower tok = ''futures'' \<or>
                 to_lower tok = ''future''
         then Inr (Impl_new (day_loop ex (root_dir db) symb ''trade'' ''fut''
                               (floor_day_ns s) (floor_day_ns (e - 1)) [])
                     s e sel2 empty_trade_bufs)
         else Inl (RuntimeError market_error)) \<and>
      get_depth_cols ex db s e symb (Some tok) sel3
      = (if to_lower tok = ''spot''
         then Inr (Impl_new (day_loop ex (root_dir db) symb ''depth'' ''spot''
                               (floor_day_ns s) (floor_day_ns (e - 1)) [])
                     s e sel3 empty_delta_bufs)
         else if to_lower tok = ''fut'' \<or> to_lower tok = ''futures'' \<or>
                 to_lower tok = ''future''
         then Inr (Impl_new (day_loop ex (root_dir db) symb ''depth'' ''fut''
                               (floor_day_ns s) (floor_day_ns (e - 1)) [])
                     s e sel3 empty_delta_bufs)
         else Inl (RuntimeError market_error)) \<and>
      get_top_cols ex db s e symb None sel1
      = Inr (Impl_new (day_loop ex (root_dir db) symb ''top'' ''fut''
                         (floor_day_ns s) (floor_day_ns (e - 1)) [] @
                       day_loop ex (root_dir db) symb ''top'' ''spot''
                         (floor_day_ns s) (floor_day_ns (e - 1)) [])
               s e sel1 empty_top_bufs) \<and>
      get_trade_cols ex db s e symb None sel2
      = Inr (Impl_new (day_loop ex (root_dir db) symb ''trade'' ''fut''
                         (floor_day_ns s) (floor_day_ns (e - 1)) [] @
                       day_loop ex (root_dir db) symb ''trade'' ''spot''
                         (floor_day_ns s) (floor_day_ns (e - 1)) [])
               s e sel2 empty_trade_bufs) \<and>
      get_depth_cols ex db s e symb None sel3
      = Inr (Impl_new (day_loop ex (root_dir db) symb ''depth'' ''fut''
                         (floor_day_ns s) (floor_day_ns (e - 1)) [] @
                       day_loop ex (root_dir db) symb ''depth'' ''spot''
                         (floor_day_ns s) (floor_day_ns (e - 1)) [])
               s e sel3 empty_delta_bufs)) \<and>
   (e \<le> s \<longrightarrow>
      get_top_cols ex db s e symb market sel1 = Inr (Impl_new [] s e sel1 empty_top_bufs) \<and>
      get_trade_cols ex db s e symb market sel2
      = Inr (Impl_new [] s e sel2 empty_trade_bufs) \<and>
      get_depth_cols ex db s e symb market sel3
      = Inr (Impl_new [] s e sel3 empty_delta_bufs))"
proof (intro conjI impI)
  assume lt: "s < e"
  note m = candidate_files_strict_market [OF lt]
  note n = candidate_files_strict_no_market [OF lt]
  show "get_top_cols ex db s e symb (Some tok) sel1
      = (if to_lower tok = ''spot''
         then Inr (Impl_new (day_loop ex (root_dir db) symb ''top'' ''spot''
                               (floor_day_ns s) (floor_day_ns (e - 1)) [])
                     s e sel1 empty_top_bufs)
         else if to_lower tok = ''fut'' \<or> to_lower tok = ''futures'' \<or>
                 to_lower tok = ''future''
         then Inr (Impl_new (day_loop ex (root_dir db) symb ''top'' ''fut''
                               (floor_day_ns s) (floor_day_ns (e - 1)) [])
                     s e sel1 empty_top_bufs)
         else Inl (RuntimeError market_error))"
    unfolding get_top_cols_def m by (simp add: bnd_def)
  show "get_trade_cols ex db s e symb (Some tok) sel2
      = (if to_lower tok = ''spot''
         then Inr (Impl_new (day_loop ex (root_dir db) symb ''trade'' ''spot''
                               (floor_day_ns s) (floor_day_ns (e - 1)) [])
                     s e sel2 empty_trade_bufs)
         else if to_lower tok = ''fut'' \<or> to_lower tok = ''futures'' \<or>
                 to_lower tok = ''future''
         then Inr (Impl_new (day_loop ex (root_dir db) symb ''trade'' ''fut''
                               (floor_day_ns s) (floor_day_ns (e - 1)) [])
                     s e sel2 empty_trade_bufs)
         else Inl (RuntimeError market_error))"
    unfolding get_trade_cols_def m by (simp add: bnd_def)
  show "get_depth_cols ex db s e symb (Some tok) sel3
      = (if to_lower tok = ''spot''
         then Inr (Impl_new (day_loop ex (root_dir db) symb ''depth'' ''spot''
                               (floor_day_ns s) (floor_day_ns (e - 1)) [])
                     s e sel3 empty_delta_bufs)
         else if to_lower tok = ''fut'' \<or> to_lower tok = ''futures'' \<or>
                 to_lower tok = ''future''
         then Inr (Impl_new (day_loop ex (root_dir db) symb ''depth'' ''fut''
                               (floor_day_ns s) (floor_day_ns (e - 1)) [])
                     s e sel3 empty_delta_bufs)
         else Inl (RuntimeError market_error))"
    unfolding get_depth_cols_def m by (simp add: bnd_def)
  show "get_top_cols ex db s e symb None sel1
      = Inr (Impl_new (day_loop ex (root_dir db) symb ''top'' ''fut''
                         (floor_day_ns s) (floor_day_ns (e - 1)) [] @
                       day_loop ex (root_dir db) symb ''top'' ''spot''
                         (floor_day_ns s) (floor_day_ns (e - 1)) [])
               s e sel1 empty_top_bufs)"
    unfolding get_top_cols_def n by (simp add: bnd_def)
  show "get_trade_cols ex db s e symb None sel2
      = Inr (Impl_new (day_loop ex (root_dir db) symb ''trade'' ''fut''
                         (floor_day_ns s) (floor_day_ns (e - 1)) [] @
                       day_loop ex (root_dir db) symb ''trade'' ''spot''
                         (floor_day_ns s) (floor_day_ns (e - 1)) [])
               s e sel2 empty_trade_bufs)"
    unfolding get_trade_cols_def n by (simp add: bnd_def)
  show "get_depth_cols ex db s e symb None sel3
      = Inr (Impl_new (day_loop ex (root_dir db) symb ''depth'' ''fut''
                         (floor_day_ns s) (floor_day_ns (e - 1)) [] @
                       day_loop ex (root_dir db) symb ''depth'' ''spot''
                         (floor_day_ns s) (floor_day_ns (e - 1)) [])
               s e sel3 empty_delta_bufs)"
    unfolding get_depth_cols_def n by (simp add: bnd_def)
next
  assume le: "e \<le> s"
  note z = candidate_files_strict_empty_window [OF le]
  show "get_top_cols ex db s e symb market sel1 = Inr (Impl_new [] s e sel1 empty_top_bufs)"
    unfolding get_top_cols_def z by (simp add: bnd_def)
  show "get_trade_cols ex db s e symb market sel2
        = Inr (Impl_new [] s e sel2 empty_trade_bufs)"
    unfolding get_trade_cols_def z by (simp add: bnd_def)
  show "get_depth_cols ex db s e symb market sel3
        = Inr (Impl_new [] s e sel3 empty_delta_bufs)"
    unfolding get_depth_cols_def z by (simp add: bnd_def)
qed

text \<open>
  As the claim states it, every call with an unknown token would raise. With the
  empty window \<open>[5, 5)\<close> the token \<open>bogus\<close> raises nothing: the three calls
  return a reader without candidates, whose \<open>next\<close> returns false.
\<close>

theorem unknown_market_with_empty_window_does_not_raise:
  "norm_market (Some ''bogus'') = None \<and>
   get_top_cols top_exists data_db 5 5 ''BTCUSDT'' (Some ''bogus'') select_default_top
   = Inr (Impl_new [] 5 5 select_default_top empty_top_bufs) \<and>
   get_trade_cols trade_exists data_db 5 5 ''BTCUSDT'' (Some ''bogus'') select_all_trade
   = Inr (Impl_new [] 5 5 select_all_trade empty_trade_bufs) \<and>
   get_depth_cols depth_exists data_db 5 5 ''BTCUSDT'' (Some ''bogus'') select_all_depth
   = Inr (Impl_new [] 5 5 select_all_depth empty_delta_bufs) \<and>
   fst (delta_next depth_disk (Impl_new [] 5 5 select_all_depth empty_delta_bufs)
          no_depth_view) = False"
  by (intro conjI; code_simp)

theorem market_token_is_normalised_witness:
  "get_depth_cols depth_exists data_db (sept_ns 3) (sept_ns 4) ''BTCUSDT'' (Some ''Spot'')
     select_all_depth = Inr depth_day3_reader \<and>
   get_depth_cols every_file_present data_db (sept_ns 3) (sept_ns 4) ''BTCUSDT'' (Some ''FUTURES'')
     select_all_depth
   = Inr (Impl_new
            [\<lparr>path = ''/data/depth_fut/BTCUSDT/2025/9/bn_depth_fut_BTCUSDT_2025_9_3.parquet'',
              file_start_ns = sept_ns 3, file_end_ns = sept_ns 4\<rparr>]
            (sept_ns 3) (sept_ns 4) select_all_depth empty_delta_bufs) \<and>
   get_trade_cols every_file_present data_db (sept_ns 3) (sept_ns 4) ''BTCUSDT'' (Some ''Future'')
     select_all_trade
   = Inr (Impl_new
            [\<lparr>path = ''/data/trade_fut/BTCUSDT/2025/9/bn_trade_fut_BTCUSDT_2025_9_3.parquet'',
              file_start_ns = sept_ns 3, file_end_ns = sept_ns 4\<rparr>]
            (sept_ns 3) (sept_ns 4) select_all_trade empty_trade_bufs) \<and>
   get_top_cols every_file_present data_db (sept_ns 3) (sept_ns 4) ''BTCUSDT'' (Some ''bogus'')
     select_default_top = Inl (RuntimeError market_error) \<and>
   get_trade_cols every_file_present data_db (sept_ns 3) (sept_ns 4) ''BTCUSDT'' (Some ''spots'')
     select_all_trade = Inl (RuntimeError market_error) \<and>
   get_depth_cols every_file_present data_db (sept_ns 3) (sept_ns 4) ''BTCUSDT'' (Some '''')
     select_all_depth = Inl (RuntimeError market_error) \<and>
   get_top_cols every_file_present data_db (sept_ns 3) (sept_ns 4) ''BTCUSDT'' None
     select_default_top
   = Inr (Impl_new
            [\<lparr>path = ''/data/top_fut/BTCUSDT/2025/9/bn_top_fut_BTCUSDT_2025_9_3.parquet'',
              file_start_ns = sept_ns 3, file_end_ns = sept_ns 4\<rparr>,
             \<lparr>path = ''/data/top_spot/BTCUSDT/2025/9/bn_top_spot_BTCUSDT_2025_9_3.parquet'',
              file_start_ns = sept_ns 3, file_end_ns = sept_ns 4\<rparr>]
            (sept_ns 3) (sept_ns 4) select_default_top empty_top_bufs) \<and>
   get_depth_cols depth_exists data_db 5 5 ''BTCUSDT'' (Some ''spot'') select_all_depth
   = Inr (Impl_new [] 5 5 select_all_depth empty_delta_bufs)"
proof -
  note T = market_token_is_normalised
  have lt: "sept_ns 3 < sept_ns 4" by (simp add: sept_ns_def)
  have low: "to_lower ''Spot'' = ''spot''" "to_lower ''FUTURES'' = ''futures''"
            "to_lower ''Future'' = ''future''" "to_lower ''bogus'' = ''bogus''"
            "to_lower ''spots'' = ''spots''" "to_lower '''' = ''''"
    by code_simp+
  have d1: "day_loop depth_exists ''/data'' ''BTCUSDT'' ''depth'' ''spot''
              (floor_day_ns (sept_ns 3)) (floor_day_ns (sept_ns 4 - 1)) []
            = [\<lparr>path = depth_path 3, file_start_ns = 1756857600000000000,
                 file_end_ns = 1756944000000000000\<rparr>]" by code_simp
  have d2: "day_loop every_file_present ''/data'' ''BTCUSDT'' ''depth'' ''fut''
              (floor_day_ns (sept_ns 3)) (floor_day_ns (sept_ns 4 - 1)) []
            = [\<lparr>path = ''/data/depth_fut/BTCUSDT/2025/9/bn_depth_fut_BTCUSDT_2025_9_3.parquet'',
              file_start_ns = sept_ns 3, file_end_ns = sept_ns 4\<rparr>]" by code_simp
  have d3: "day_loop every_file_present ''/data'' ''BTCUSDT'' ''trade'' ''fut''
              (floor_day_ns (sept_ns 3)) (floor_day_ns (sept_ns 4 - 1)) []
            = [\<lparr>path = ''/data/trade_fut/BTCUSDT/2025/9/bn_trade_fut_BTCUSDT_2025_9_3.parquet'',
              file_start_ns = sept_ns 3, file_end_ns = sept_ns 4\<rparr>]" by code_simp
  have d4: "day_loop every_file_present ''/data'' ''BTCUSDT'' ''top'' ''fut''
              (floor_day_ns (sept_ns 3)) (floor_day_ns (sept_ns 4 - 1)) []
            = [\<lparr>path = ''/data/top_fut/BTCUSDT/2025/9/bn_top_fut_BTCUSDT_2025_9_3.parquet'',
              file_start_ns = sept_ns 3, file_end_ns = sept_ns 4\<rparr>]"
           "day_loop every_file_present ''/data'' ''BTCUSDT'' ''top'' ''spot''
              (floor_day_ns (sept_ns 3)) (floor_day_ns (sept_ns 4 - 1)) []
            = [\<lparr>path = ''/data/top_spot/BTCUSDT/2025/9/bn_top_spot_BTCUSDT_2025_9_3.parquet'',
              file_start_ns = sept_ns 3, file_end_ns = sept_ns 4\<rparr>]" by code_simp+
  have r: "root_dir data_db = ''/data''" by (simp add: data_db_def)
  have s3: "sept_ns 3 = 1756857600000000000" "sept_ns 4 = 1756944000000000000"
    by (simp_all add: sept_ns_def)
  have "get_depth_cols depth_exists data_db (sept_ns 3) (sept_ns 4) ''BTCUSDT''
          (Some ''Spot'') select_all_depth
        = Inr (Impl_new [\<lparr>path = depth_path 3, file_start_ns = 1756857600000000000,
                           file_end_ns = 1756944000000000000\<rparr>]
                 (sept_ns 3) (sept_ns 4) select_all_depth empty_delta_bufs)"
    using T [of "sept_ns 3" "sept_ns 4" depth_exists data_db "''BTCUSDT''" "''Spot''"
               _ _ select_all_depth, THEN conjunct1, rule_format, OF lt,
             THEN conjunct2, THEN conjunct2, THEN conjunct1]
    by (simp add: low r d1)
  then have a1: "get_depth_cols depth_exists data_db (sept_ns 3) (sept_ns 4) ''BTCUSDT''
              (Some ''Spot'') select_all_depth = Inr depth_day3_reader"
    by (simp add: depth_day3_reader_def s3)
  have a2: "get_depth_cols every_file_present data_db (sept_ns 3) (sept_ns 4) ''BTCUSDT''
              (Some ''FUTURES'') select_all_depth
   = Inr (Impl_new
            [\<lparr>path = ''/data/depth_fut/BTCUSDT/2025/9/bn_depth_fut_BTCUSDT_2025_9_3.parquet'',
              file_start_ns = sept_ns 3, file_end_ns = sept_ns 4\<rparr>]
            (sept_ns 3) (sept_ns 4) select_all_depth empty_delta_bufs)"
    using T [of "sept_ns 3" "sept_ns 4" every_file_present data_db "''BTCUSDT''" "''FUTURES''"
               _ _ select_all_depth, THEN conjunct1, rule_format, OF lt,
             THEN conjunct2, THEN conjunct2, THEN conjunct1]
    by (simp add: low r d2)
  have a3: "get_trade_cols every_file_present data_db (sept_ns 3) (sept_ns 4) ''BTCUSDT''
              (Some ''Future'') select_all_trade
   = Inr (Impl_new
            [\<lparr>path = ''/data/trade_fut/BTCUSDT/2025/9/bn_trade_fut_BTCUSDT_2025_9_3.parquet'',
              file_start_ns = sept_ns 3, file_end_ns = sept_ns 4\<rparr>]
            (sept_ns 3) (sept_ns 4) select_all_trade empty_trade_bufs)"
    using T [of "sept_ns 3" "sept_ns 4" every_file_present data_db "''BTCUSDT''" "''Future''"
               _ select_all_trade, THEN conjunct1, rule_format, OF lt,
             THEN conjunct2, THEN conjunct1]
    by (simp add: low r d3)
  have a4: "get_top_cols every_file_present data_db (sept_ns 3) (sept_ns 4) ''BTCUSDT''
              (Some ''bogus'') select_default_top = Inl (RuntimeError market_error)"
    using T [of "sept_ns 3" "sept_ns 4" every_file_present data_db "''BTCUSDT''" "''bogus''"
               select_default_top, THEN conjunct1, rule_format, OF lt, THEN conjunct1]
    by (simp add: low)
  have a5: "get_trade_cols every_file_present data_db (sept_ns 3) (sept_ns 4) ''BTCUSDT''
              (Some ''spots'') select_all_trade = Inl (RuntimeError market_error)"
    using T [of "sept_ns 3" "sept_ns 4" every_file_present data_db "''BTCUSDT''" "''spots''"
               _ select_all_trade, THEN conjunct1, rule_format, OF lt,
             THEN conjunct2, THEN conjunct1]
    by (simp add: low)
  have a6: "get_depth_cols every_file_present data_db (sept_ns 3) (sept_ns 4) ''BTCUSDT''
              (Some '''') select_all_depth = Inl (RuntimeError market_error)"
    using T [of "sept_ns 3" "sept_ns 4" every_file_present data_db "''BTCUSDT''" "''''"
               _ _ select_all_depth, THEN conjunct1, rule_format, OF lt,
             THEN conjunct2, THEN conjunct2, THEN conjunct1]
    by (simp add: low)
  have a7: "get_top_cols every_file_present data_db (sept_ns 3) (sept_ns 4) ''BTCUSDT'' None
              select_default_top
   = Inr (Impl_new
            [\<lparr>path = ''/data/top_fut/BTCUSDT/2025/9/bn_top_fut_BTCUSDT_2025_9_3.parquet'',
              file_start_ns = sept_ns 3, file_end_ns = sept_ns 4\<rparr>,
             \<lparr>path = ''/data/top_spot/BTCUSDT/2025/9/bn_top_spot_BTCUSDT_2025_9_3.parquet'',
              file_start_ns = sept_ns 3, file_end_ns = sept_ns 4\<rparr>]
            (sept_ns 3) (sept_ns 4) select_default_top empty_top_bufs)"
    using T [of "sept_ns 3" "sept_ns 4" every_file_present data_db "''BTCUSDT''" _
               select_default_top, THEN conjunct1, rule_format, OF lt,
             THEN conjunct2, THEN conjunct2, THEN conjunct2, THEN conjunct1]
    by (simp add: r d4)
  have a8: "get_depth_cols depth_exists data_db 5 5 ''BTCUSDT'' (Some ''spot'')
              select_all_depth = Inr (Impl_new [] 5 5 select_all_depth empty_delta_bufs)"
    using T [of 5 5 depth_exists data_db "''BTCUSDT''" _ _ _ select_all_depth "Some ''spot''",
             THEN conjunct2, rule_format, THEN conjunct2, THEN conjunct2]
    by simp
  from a1 a2 a3 a4 a5 a6 a7 a8 show ?thesis by blast
qed

subsection \<open>File discovery\<close>

lemma floor_day_ns_nonneg:
  assumes "0 \<le> ns"
  shows "floor_day_ns ns = (ns div day_ns) * day_ns"
proof -
  from assms have a: "cdiv ns 1000000000 = ns div 1000000000"
    by (simp add: cdiv_def sgn_if)
  have b: "0 \<le> ns div 1000000000" using assms by simp
  then have c: "cmod (ns div 1000000000) 86400 = (ns div 1000000000) mod 86400"
    by (simp add: cmod_def cdiv_def sgn_if minus_mult_div_eq_mod)
  have d: "ns div 1000000000 div 86400 = ns div day_ns"
    by (simp add: day_ns_def div_mult2_eq [symmetric])
  have "ns div 1000000000 - (ns div 1000000000) mod 86400
        = (ns div 1000000000 div 86400) * 86400"
    by (simp add: minus_mod_eq_div_mult)
  with a c d show ?thesis
    by (simp add: floor_day_ns_def Let_def day_ns_def)
qed

lemma day_loop_days:
  assumes "nat (hi - lo + 1) = n"
  shows "day_loop ex root symb base_type mkt (lo * day_ns) (hi * day_ns) []
         = map (day_candidate root symb base_type mkt)
             (filter (\<lambda>d. ex (path (day_candidate root symb base_type mkt d))) [lo..hi])"
  using assms
proof (induction n arbitrary: lo)
  case 0
  then have "hi < lo" by simp
  then have "\<not> lo * day_ns \<le> hi * day_ns" by (simp add: day_ns_def)
  with \<open>hi < lo\<close> show ?case by (simp add: day_loop.simps)
next
  case (Suc n)
  then have le: "lo \<le> hi" and n: "nat (hi - (lo + 1) + 1) = n" by simp_all
  from le have c: "lo * day_ns \<le> hi * day_ns" by (simp add: day_ns_def)
  let ?c = "day_candidate root symb base_type mkt lo"
  have step: "day_loop ex root symb base_type mkt (lo * day_ns) (hi * day_ns) []
              = day_loop ex root symb base_type mkt ((lo + 1) * day_ns) (hi * day_ns)
                  (if ex (path ?c) then [?c] else [])"
    using c
    by (subst day_loop.simps)
       (simp add: Let_def day_candidate_def algebra_simps)
  have app: "day_loop ex root symb base_type mkt ((lo + 1) * day_ns) (hi * day_ns)
               (if ex (path ?c) then [?c] else [])
             = (if ex (path ?c) then [?c] else []) @
               day_loop ex root symb base_type mkt ((lo + 1) * day_ns) (hi * day_ns) []"
    by (rule day_loop_append)
  from le have up: "[lo..hi] = lo # [lo + 1..hi]" by (simp add: upto_rec1)
  from step app Suc.IH [OF n] up show ?case by simp
qed

lemma discovery_from_epoch:
  assumes "0 \<le> s" and "s < e" and "mkt = ''spot'' \<or> mkt = ''fut''"
  shows "candidate_files_strict ex root symb base_type (Some mkt) s e smp
         = Inr (map (day_candidate root symb base_type mkt)
                  (filter (\<lambda>d. ex (path (day_candidate root symb base_type mkt d)))
                     (days_of_window s e)))"
proof -
  from assms(3) have l: "to_lower mkt = mkt" by (auto simp: to_lower_def tolower_def)
  from assms(1,2) have e: "0 \<le> e - 1" by simp
  from candidate_files_strict_market [OF assms(2), of ex root symb base_type mkt smp] l assms(3)
  have "candidate_files_strict ex root symb base_type (Some mkt) s e smp
        = Inr (day_loop ex root symb base_type mkt (floor_day_ns s) (floor_day_ns (e - 1)) [])"
    by auto
  then show ?thesis
    by (simp add: floor_day_ns_nonneg [OF assms(1)] floor_day_ns_nonneg [OF e]
          day_loop_days [OF refl] days_of_window_def)
qed

text \<open>
  Claim C5. From 1970-01-01 on, discovery lists the days of the window as the
  claim says (lemma \<open>discovery_from_epoch\<close>): one candidate for each day from the
  day of \<open>s\<close> to the day of \<open>e - 1\<close> whose file exists, under the fixed layout,
  and nothing for \<open>e \<le> s\<close>. Before 1970 it does not: \<open>floor_day_ns\<close> rounds a
  negative time towards zero, to the start of the following day. For the window
  from 1969-12-30 12:00:00 to 20:13:20, with every file present, the one
  candidate is the file of 1969-12-31; the window \<open>[-5, -3)\<close> gives the file of
  1970-01-01, and the window of the whole of 1969-12-31 gives the files of that
  day and of 1970-01-01.
\<close>

theorem discovery_before_1970_lists_the_following_day:
  "candidate_files_strict every_file_present ''/data'' ''BTCUSDT'' ''depth'' (Some ''spot'')
     (- 129600000000000) (- 100000000000000) None
   = Inr [\<lparr>path = ''/data/depth_spot/BTCUSDT/1969/12/bn_depth_spot_BTCUSDT_1969_12_31.parquet'',
            file_start_ns = - 86400000000000, file_end_ns = 0\<rparr>] \<and>
   gmtime_r (- 129600) = \<lparr>tm_year = 69, tm_mon = 11, tm_mday = 30\<rparr> \<and>
   gmtime_r (- 100001) = \<lparr>tm_year = 69, tm_mon = 11, tm_mday = 30\<rparr> \<and>
   floor_day_ns (- 129600000000000) = - 86400000000000 \<and>
   candidate_files_strict every_file_present ''/data'' ''BTCUSDT'' ''depth'' (Some ''spot'')
     (- 5) (- 3) None
   = Inr [\<lparr>path = ''/data/depth_spot/BTCUSDT/1970/1/bn_depth_spot_BTCUSDT_1970_1_1.parquet'',
            file_start_ns = 0, file_end_ns = 86400000000000\<rparr>] \<and>
   map path (projr (candidate_files_strict every_file_present ''/data'' ''BTCUSDT'' ''depth''
                      (Some ''spot'') (- 86400000000000) 0 None))
   = [''/data/depth_spot/BTCUSDT/1969/12/bn_depth_spot_BTCUSDT_1969_12_31.parquet'',
      ''/data/depth_spot/BTCUSDT/1970/1/bn_depth_spot_BTCUSDT_1970_1_1.parquet'']"
  by (intro conjI; code_simp)

lemma discovery_across_a_month_boundary:
  "candidate_files_strict
     (\<lambda>p. p \<noteq> ''/data/trade_spot/ETHUSDT/2025/10/bn_trade_spot_ETHUSDT_2025_10_1.parquet'')
     ''/data'' ''ETHUSDT'' ''trade'' (Some ''spot'')
     1759190400000000000 1759449600000000000 None
   = Inr [\<lparr>path = ''/data/trade_spot/ETHUSDT/2025/9/bn_trade_spot_ETHUSDT_2025_9_30.parquet'',
            file_start_ns = 1759190400000000000, file_end_ns = 1759276800000000000\<rparr>,
          \<lparr>path = ''/data/trade_spot/ETHUSDT/2025/10/bn_trade_spot_ETHUSDT_2025_10_2.parquet'',
            file_start_ns = 1759363200000000000, file_end_ns = 1759449600000000000\<rparr>]"
  by code_simp

end
